theory Spec2Isabelle
  imports Complex_Main "HOL-Library.Product_Lexorder" "HOL-Library.Multiset"
begin

section \<open>Numbers and library primitives used by \<open>blum.py\<close>\<close>

text \<open>
  The program computes on Python floats. They are embedded as exact reals; a value
  column entry may be NaN (a missing sample), which is \<open>None\<close> of \<open>real option\<close>.
  Rounding error of the float operations is not part of the model, with one exception:
  the remainder operator \<open>%\<close>, whose rounded result can leave the range the exact
  result lies in.
\<close>

type_synonym pyfloat = "real option"

definition isnan :: "pyfloat \<Rightarrow> bool" where
  "isnan v = (v = None)"

text \<open>\<open>np.rint\<close>: round to the nearest integer, a tie to the even one.\<close>

definition rint :: "real \<Rightarrow> int" where
  "rint x =
     (let f = \<lfloor>x\<rfloor>; d = x - of_int f
      in if d < 1 / 2 then f
         else if 1 / 2 < d then f + 1
         else if even f then f else f + 1)"

text \<open>
  Rounding a real to the nearest binary64 number, a tie to the even mantissa, for
  magnitudes in the normal range (no overflow, no subnormal numbers). \<open>binade_up\<close>
  and \<open>binade_down\<close> count the halvings and doublings that bring a positive number into
  the interval from 1 to 2, which gives its binary exponent; \<open>ulp\<close> is the spacing of
  the binary64 numbers with that exponent.
\<close>

function binade_up :: "real \<Rightarrow> nat" where
  "binade_up a = (if 2 \<le> a then Suc (binade_up (a / 2)) else 0)"
  by pat_completeness auto
termination
proof (relation "measure (\<lambda>a. nat \<lfloor>a\<rfloor>)")
  show "wf (measure (\<lambda>a::real. nat \<lfloor>a\<rfloor>))" by simp
next
  fix a :: real
  assume a: "2 \<le> a"
  have "a / 2 \<le> a - 1" using a by simp
  then have "\<lfloor>a / 2\<rfloor> \<le> \<lfloor>a - 1\<rfloor>" by (rule floor_mono)
  moreover have "2 \<le> \<lfloor>a\<rfloor>" using a by (simp add: le_floor_iff)
  ultimately show "(a / 2, a) \<in> measure (\<lambda>a. nat \<lfloor>a\<rfloor>)" by simp
qed

function binade_down :: "real \<Rightarrow> nat" where
  "binade_down a = (if 0 < a \<and> a < 1 then Suc (binade_down (2 * a)) else 0)"
  by pat_completeness auto
termination
proof (relation "measure (\<lambda>a. nat \<lceil>1 / a\<rceil>)")
  show "wf (measure (\<lambda>a::real. nat \<lceil>1 / a\<rceil>))" by simp
next
  fix a :: real
  assume a: "0 < a \<and> a < 1"
  define t where "t = 1 / a"
  have t: "1 < t" using a by (simp add: t_def)
  then have c: "2 \<le> \<lceil>t\<rceil>" by (simp add: le_ceiling_iff)
  have "t \<le> of_int \<lceil>t\<rceil>" by (rule le_of_int_ceiling)
  then have "t / 2 \<le> of_int \<lceil>t\<rceil> / 2" by simp
  also have "\<dots> \<le> of_int (\<lceil>t\<rceil> - 1)" using c by simp
  finally have h: "\<lceil>t / 2\<rceil> \<le> \<lceil>t\<rceil> - 1" by (rule ceiling_le)
  have e: "1 / (2 * a) = t / 2" by (simp add: t_def)
  have lt: "\<lceil>1 / (2 * a)\<rceil> < \<lceil>t\<rceil>" unfolding e using h by linarith
  have pos: "0 < \<lceil>t\<rceil>" using c by linarith
  from lt pos have "nat \<lceil>1 / (2 * a)\<rceil> < nat \<lceil>t\<rceil>"
    by (simp only: zless_nat_conj)
  then show "(2 * a, a) \<in> measure (\<lambda>a. nat \<lceil>1 / a\<rceil>)"
    by (simp only: in_measure t_def)
qed

declare binade_up.simps [simp del] binade_down.simps [simp del]

definition ulp :: "real \<Rightarrow> real" where
  "ulp a = (if 1 \<le> a then 2 ^ binade_up a else 1 / 2 ^ binade_down a) / 2 ^ 52"

definition round_to_double :: "real \<Rightarrow> real" where
  "round_to_double x =
     (if x = 0 then 0
      else sgn x * of_int (rint (\<bar>x\<bar> / ulp \<bar>x\<bar>)) * ulp \<bar>x\<bar>)"

text \<open>
  The float remainder \<open>x % m\<close> of Python and numpy: the C \<open>fmod\<close>, which is exact and
  has the sign of \<open>x\<close>, and, where a nonzero remainder and \<open>m\<close> differ in sign, the
  float sum of the remainder and \<open>m\<close>. The program only uses the modulus 360.
\<close>

definition trunc :: "real \<Rightarrow> int" where
  "trunc t = (if 0 \<le> t then \<lfloor>t\<rfloor> else \<lceil>t\<rceil>)"

definition fmod :: "real \<Rightarrow> real \<Rightarrow> real" where
  "fmod x m = x - m * of_int (trunc (x / m))"

definition py_mod :: "real \<Rightarrow> real \<Rightarrow> real" where
  "py_mod x m =
     (let r = fmod x m
      in if r \<noteq> 0 \<and> (m < 0) \<noteq> (r < 0) then round_to_double (r + m) else r)"


text \<open>
  \<open>np.arange(start, stop, step)\<close>: \<open>ceil((stop - start) / step)\<close> values
  \<open>start + i * step\<close>, none when that count is not positive.
\<close>

definition np_arange :: "real \<Rightarrow> real \<Rightarrow> real \<Rightarrow> real list" where
  "np_arange start stop step =
     map (\<lambda>i. start + real i * step) [0 ..< nat \<lceil>(stop - start) / step\<rceil>]"

text \<open>\<open>a.round(3)\<close> on an array element.\<close>

definition round3 :: "real \<Rightarrow> real" where
  "round3 x = of_int (rint (x * 1000)) / 1000"

section \<open>Grid construction (lines 145--149)\<close>

definition grid_spacing :: real where
  "grid_spacing = 0.125"

definition grid_lons :: "real \<Rightarrow> real \<Rightarrow> real list" where
  "grid_lons lon_min lon_max = np_arange lon_min (lon_max + 0.0001) grid_spacing"

definition grid_lats :: "real \<Rightarrow> real \<Rightarrow> real list" where
  "grid_lats lat_min lat_max = np_arange lat_min (lat_max + 0.0001) grid_spacing"

text \<open>
  \<open>np.meshgrid(grid_lats, grid_lons, indexing='ij')\<close>, both results ravelled and
  joined column-wise by \<open>np.c_\<close>: the pairs \<open>(lat, lon)\<close>, latitude-major.
\<close>

definition grid_points :: "real \<Rightarrow> real \<Rightarrow> real \<Rightarrow> real \<Rightarrow> (real \<times> real) list" where
  "grid_points lat_min lat_max lon_min lon_max =
     concat (map (\<lambda>la. map (\<lambda>lo. (la, lo)) (grid_lons lon_min lon_max))
                 (grid_lats lat_min lat_max))"

section \<open>Datasets, files and selections\<close>

text \<open>
  What \<open>xr.open_dataset\<close> returns, as far as the handler reads it: the latitude and
  longitude coordinate arrays and the data variables, each a two-dimensional array over
  \<open>(lat, lon)\<close> whose row \<open>i\<close> belongs to \<open>ds.lat.values[i]\<close> and whose column \<open>j\<close>
  belongs to \<open>ds.lon.values[j]\<close>.
\<close>

record dataset =
  ds_lat :: "real list"
  ds_lon :: "real list"
  data_vars :: "string \<rightharpoonup> pyfloat list list"

text \<open>The exceptions that can reach the handler's \<open>except Exception\<close>.\<close>

datatype error =
    BackendError string
  | KeyError string
  | IndexError
  | ValueError
  | QhullError

record uploaded_file =
  name :: string
  getvalue :: "nat list"

record selection =
  variables :: "string list"
  lat_min :: real
  lat_max :: real
  lon_min :: real
  lon_max :: real

text \<open>
  The two decoding engines of xarray and scipy's piecewise-linear interpolant are
  library code; the handler is modelled relative to them. \<open>linear_interpolant pts vals q\<close>
  is the value at \<open>q\<close> of the interpolant that \<open>griddata(..., method='linear')\<close> builds
  over a triangulation of \<open>pts\<close>, NaN outside the convex hull.
\<close>

record lib =
  NETCDF4_AVAILABLE :: bool
  open_netcdf4 :: "nat list \<Rightarrow> error + dataset"
  open_h5netcdf :: "nat list \<Rightarrow> error + dataset"
  linear_interpolant :: "(real \<times> real) list \<Rightarrow> pyfloat list \<Rightarrow> real \<times> real \<Rightarrow> pyfloat"

section \<open>Dataset reader (lines 117--124)\<close>

definition open_dataset :: "lib \<Rightarrow> uploaded_file \<Rightarrow> error + dataset" where
  "open_dataset l file =
     (case (if NETCDF4_AVAILABLE l then open_netcdf4 l (getvalue file)
            else Inl (BackendError ''netCDF4 not available, fallback to h5netcdf'')) of
        Inr ds \<Rightarrow> Inr ds
      | Inl _ \<Rightarrow> open_h5netcdf l (getvalue file))"

section \<open>Latitude swap and label slicing (lines 129--136)\<close>

text \<open>\<open>ds.lat.values[0] > ds.lat.values[-1]\<close>; indexing an empty array raises.\<close>

definition lat_bounds :: "real list \<Rightarrow> real \<Rightarrow> real \<Rightarrow> error + real \<times> real" where
  "lat_bounds lats lo hi =
     (case lats of
        [] \<Rightarrow> Inl IndexError
      | _ # _ \<Rightarrow> if hd lats > last lats then Inr (hi, lo) else Inr (lo, hi))"

text \<open>\<open>np.searchsorted\<close> on an ascending array, \<open>side='left'\<close> and \<open>side='right'\<close>.\<close>

definition searchsorted_left :: "real list \<Rightarrow> real \<Rightarrow> nat" where
  "searchsorted_left xs v = length (takeWhile (\<lambda>x. x < v) xs)"

definition searchsorted_right :: "real list \<Rightarrow> real \<Rightarrow> nat" where
  "searchsorted_right xs v = length (takeWhile (\<lambda>x. x \<le> v) xs)"

text \<open>
  \<open>.sel(lat=slice(a, b))\<close> resolves the labels through pandas' \<open>Index.slice_indexer\<close>:
  on a monotonic increasing index the positions are \<open>searchsorted(a, 'left')\<close> and
  \<open>searchsorted(b, 'right')\<close>; on a monotonic decreasing index they are taken on the
  reversed index with the sides exchanged and counted from the end. An index that is
  neither is outside the data model (coordinate axes are monotonic); label slicing on
  it is represented by the \<open>KeyError\<close> pandas raises when a bound is not a label.
\<close>

definition slice_indexer :: "real list \<Rightarrow> real \<Rightarrow> real \<Rightarrow> error + nat \<times> nat" where
  "slice_indexer xs a b =
     (if sorted xs then Inr (searchsorted_left xs a, searchsorted_right xs b)
      else if sorted (rev xs)
      then Inr (length xs - searchsorted_right (rev xs) a,
                length xs - searchsorted_left (rev xs) b)
      else Inl (KeyError ''slice bound''))"

text \<open>Python's \<open>xs[i:j]\<close> for non-negative positions.\<close>

definition py_slice :: "nat \<Rightarrow> nat \<Rightarrow> 'a list \<Rightarrow> 'a list" where
  "py_slice i j xs = take (j - i) (drop i xs)"

type_synonym row = "real \<times> real \<times> pyfloat"

text \<open>
  \<open>ds[var].sel(lat=slice(lat_min, lat_max), lon=slice(lon_min, lon_max))\<close> followed by
  \<open>.to_dataframe(name="value").reset_index()\<close>: one row \<open>(lat, lon, value)\<close> per selected
  cell, latitude-major.
\<close>

definition subset_rows ::
  "dataset \<Rightarrow> string \<Rightarrow> real \<Rightarrow> real \<Rightarrow> real \<Rightarrow> real \<Rightarrow> error + row list" where
  "subset_rows ds var la0 la1 lo0 lo1 =
     (case data_vars ds var of
        None \<Rightarrow> Inl (KeyError var)
      | Some arr \<Rightarrow>
          (case slice_indexer (ds_lat ds) la0 la1 of
             Inl e \<Rightarrow> Inl e
           | Inr (i0, i1) \<Rightarrow>
               (case slice_indexer (ds_lon ds) lo0 lo1 of
                  Inl e \<Rightarrow> Inl e
                | Inr (j0, j1) \<Rightarrow>
                    Inr (concat (map (\<lambda>(la, vs). map (\<lambda>(lo, v). (la, lo, v))
                                                      (py_slice j0 j1 (zip (ds_lon ds) vs)))
                                     (py_slice i0 i1 (zip (ds_lat ds) arr)))))))"

text \<open>\<open>df.dropna(subset=["value"])\<close>.\<close>

definition dropna :: "row list \<Rightarrow> row list" where
  "dropna df = filter (\<lambda>(la, lo, v). \<not> isnan v) df"

section \<open>Longitude rewrap (lines 138--142)\<close>

text \<open>\<open>df['lon'].max() > 180\<close>; the maximum of an empty column is NaN, which compares false.\<close>

definition lon_max_exceeds_180 :: "row list \<Rightarrow> bool" where
  "lon_max_exceeds_180 df =
     (case map (\<lambda>(la, lo, v). lo) df of
        [] \<Rightarrow> False
      | l # ls \<Rightarrow> 180 < foldl max l ls)"

definition rewrap_lon :: "row list \<Rightarrow> real \<Rightarrow> real \<Rightarrow> row list \<times> real \<times> real" where
  "rewrap_lon df lo0 lo1 =
     (if lon_max_exceeds_180 df
      then (map (\<lambda>(la, lo, v). (la, py_mod lo 360, v)) df, py_mod lo0 360, py_mod lo1 360)
      else (df, lo0, lo1))"

section \<open>Interpolation (lines 151--159)\<close>

text \<open>The \<open>lat\<close> and \<open>lon\<close> columns of \<open>df\<close> as points, and its \<open>value\<close> column.\<close>

definition df_points :: "row list \<Rightarrow> (real \<times> real) list" where
  "df_points df = map (\<lambda>(la, lo, v). (la, lo)) df"

definition df_values :: "row list \<Rightarrow> pyfloat list" where
  "df_values df = map (\<lambda>(la, lo, v). v) df"

text \<open>
  The triangulation behind the linear method needs three points that are not on one
  line: with no points at all the library raises \<open>ValueError\<close>, with points that are
  all collinear (among them one or two points) Qhull raises \<open>QhullError\<close>.
\<close>

definition cross :: "real \<times> real \<Rightarrow> real \<times> real \<Rightarrow> real \<times> real \<Rightarrow> real" where
  "cross a b c = (fst b - fst a) * (snd c - snd a) - (snd b - snd a) * (fst c - fst a)"

definition collinear_points :: "(real \<times> real) list \<Rightarrow> bool" where
  "collinear_points pts = (\<forall>a \<in> set pts. \<forall>b \<in> set pts. \<forall>c \<in> set pts. cross a b c = 0)"

definition griddata_linear ::
  "lib \<Rightarrow> (real \<times> real) list \<Rightarrow> pyfloat list \<Rightarrow> (real \<times> real) list \<Rightarrow> error + pyfloat list" where
  "griddata_linear l pts vals xi =
     (if pts = [] then Inl ValueError
      else if collinear_points pts then Inl QhullError
      else Inr (map (linear_interpolant l pts vals) xi))"

text \<open>
  The nearest method returns the value of a source point at least squared distance
  from the query; among equidistant points the first in source order is taken here
  (the library's own tie-break is not fixed by the program).
\<close>

definition dist2 :: "real \<times> real \<Rightarrow> real \<times> real \<Rightarrow> real" where
  "dist2 p q = (fst p - fst q)\<^sup>2 + (snd p - snd q)\<^sup>2"

fun nearest_from ::
  "real \<times> pyfloat \<Rightarrow> ((real \<times> real) \<times> pyfloat) list \<Rightarrow> real \<times> real \<Rightarrow> pyfloat" where
  "nearest_from (d, v) [] q = v"
| "nearest_from (d, v) ((p, w) # r) q =
     (if dist2 p q < d then nearest_from (dist2 p q, w) r q else nearest_from (d, v) r q)"

definition griddata_nearest ::
  "(real \<times> real) list \<Rightarrow> pyfloat list \<Rightarrow> (real \<times> real) list \<Rightarrow> error + pyfloat list" where
  "griddata_nearest pts vals xi =
     (case zip pts vals of
        [] \<Rightarrow> Inl ValueError
      | (p, w) # r \<Rightarrow> Inr (map (\<lambda>q. nearest_from (dist2 p q, w) r q) xi))"

text \<open>Boolean-mask indexing \<open>a[mask]\<close>.\<close>

definition mask_select :: "'a list \<Rightarrow> bool list \<Rightarrow> 'a list" where
  "mask_select xs ms = map fst (filter snd (zip xs ms))"

text \<open>
  Boolean-mask assignment \<open>a[mask] = fill\<close>: the masked positions take the entries of
  \<open>fill\<close> in order. numpy raises \<open>ValueError\<close> unless \<open>fill\<close> has one entry per masked
  position.
\<close>

fun mask_assign :: "'a list \<Rightarrow> bool list \<Rightarrow> 'a list \<Rightarrow> error + 'a list" where
  "mask_assign [] ms fill = (if fill = [] then Inr [] else Inl ValueError)"
| "mask_assign (g # gs) [] fill = Inl IndexError"
| "mask_assign (g # gs) (True # ms) [] = Inl ValueError"
| "mask_assign (g # gs) (True # ms) (f # fill) =
     (case mask_assign gs ms fill of Inl e \<Rightarrow> Inl e | Inr r \<Rightarrow> Inr (f # r))"
| "mask_assign (g # gs) (False # ms) fill =
     (case mask_assign gs ms fill of Inl e \<Rightarrow> Inl e | Inr r \<Rightarrow> Inr (g # r))"

text \<open>The two passes: linear first, then nearest for the entries that are still NaN.\<close>

definition interpolate ::
  "lib \<Rightarrow> row list \<Rightarrow> (real \<times> real) list \<Rightarrow> error + pyfloat list" where
  "interpolate l df gp =
     (let points = df_points df; values = df_values df
      in case griddata_linear l points values gp of
           Inl e \<Rightarrow> Inl e
         | Inr grid_values \<Rightarrow>
             (let nan_mask = map isnan grid_values
              in if (\<exists>m \<in> set nan_mask. m)
                 then (case griddata_nearest points values (mask_select gp nan_mask) of
                         Inl e \<Rightarrow> Inl e
                       | Inr fill \<Rightarrow> mask_assign grid_values nan_mask fill)
                 else Inr grid_values))"

section \<open>Result table and artifact (lines 161--172)\<close>

text \<open>
  The data frame of rounded coordinates and values, one row per lattice point, and its
  stable sort by latitude descending, then longitude ascending.
\<close>

definition grid_df :: "(real \<times> real) list \<Rightarrow> pyfloat list \<Rightarrow> row list" where
  "grid_df gp grid_values =
     map (\<lambda>((la, lo), v). (round3 la, round3 lo, v)) (zip gp grid_values)"

definition sort_values :: "row list \<Rightarrow> row list" where
  "sort_values df = sort_key (\<lambda>(la, lo, v). (- la, lo)) df"

text \<open>Python's \<open>s.replace(".nc", new)\<close>: every occurrence, left to right.\<close>

function replace_nc :: "string \<Rightarrow> string \<Rightarrow> string" where
  "replace_nc new s =
     (case s of
        [] \<Rightarrow> []
      | c # cs \<Rightarrow> if take 3 s = ''.nc'' then new @ replace_nc new (drop 3 s)
                  else c # replace_nc new cs)"
  by pat_completeness auto
termination
  by (relation "measure (\<lambda>(new, s). length s)") auto

declare replace_nc.simps [simp del]

definition out_name :: "string \<Rightarrow> string \<Rightarrow> string" where
  "out_name file_name var = replace_nc (''_'' @ var @ ''_qgis.xlsx'') file_name"

text \<open>
  An output artifact. The spreadsheet bytes written by \<open>to_excel\<close> are represented by
  the table they serialise.
\<close>

record artifact =
  art_name :: string
  content :: "row list"

section \<open>The handler (lines 114--178)\<close>

text \<open>
  The body of \<open>for var in selection["variables"]\<close> for one variable. The longitude
  bounds are local variables of the handler that the rewrap assigns, so the body
  returns them for the next iteration.
\<close>

definition process_variable ::
  "lib \<Rightarrow> dataset \<Rightarrow> string \<Rightarrow> real \<Rightarrow> real \<Rightarrow> string \<Rightarrow> real \<times> real
     \<Rightarrow> error + artifact \<times> real \<times> real" where
  "process_variable l ds file_name la0 la1 var lons =
     (case subset_rows ds var la0 la1 (fst lons) (snd lons) of
        Inl e \<Rightarrow> Inl e
      | Inr sub \<Rightarrow>
          (let (df, lo0, lo1) = rewrap_lon (dropna sub) (fst lons) (snd lons);
               gp = grid_points la0 la1 lo0 lo1
           in case interpolate l df gp of
                Inl e \<Rightarrow> Inl e
              | Inr grid_values \<Rightarrow>
                  Inr (\<lparr>art_name = out_name file_name var,
                        content = sort_values (grid_df gp grid_values)\<rparr>, lo0, lo1)))"

fun variables_loop ::
  "lib \<Rightarrow> dataset \<Rightarrow> string \<Rightarrow> real \<Rightarrow> real \<Rightarrow> string list \<Rightarrow> real \<times> real \<Rightarrow> artifact list
     \<Rightarrow> error + artifact list" where
  "variables_loop l ds file_name la0 la1 [] lons results = Inr results"
| "variables_loop l ds file_name la0 la1 (var # vars) lons results =
     (case process_variable l ds file_name la0 la1 var lons of
        Inl e \<Rightarrow> Inl e
      | Inr (a, lons') \<Rightarrow> variables_loop l ds file_name la0 la1 vars lons' (results @ [a]))"

text \<open>
  What the operator sees (\<open>st.info\<close>, \<open>st.error\<close>, \<open>st.warning\<close>, \<open>st.success\<close>), the
  collected artifacts (\<open>st.session_state.final_excels\<close>) and the dataset handles that
  have been opened and not closed, by file name.
\<close>

datatype report =
    Processing string
  | Failed_to_process string error
  | Skipped_no_selections string
  | Successfully_processed nat

record app_state =
  final_excels :: "artifact list"
  messages :: "report list"
  open_handles :: "string list"

definition emit :: "report \<Rightarrow> app_state \<Rightarrow> app_state" where
  "emit r st = st\<lparr>messages := messages st @ [r]\<rparr>"

definition handle_copernicus_file ::
  "lib \<Rightarrow> uploaded_file \<Rightarrow> selection \<Rightarrow> app_state \<Rightarrow> artifact list option \<times> app_state" where
  "handle_copernicus_file l file sel st =
     (case open_dataset l file of
        Inl e \<Rightarrow> (None, emit (Failed_to_process (name file) e) st)
      | Inr ds \<Rightarrow>
          (let st1 = st\<lparr>open_handles := name file # open_handles st\<rparr>
           in case lat_bounds (ds_lat ds) (lat_min sel) (lat_max sel) of
                Inl e \<Rightarrow> (None, emit (Failed_to_process (name file) e) st1)
              | Inr (la0, la1) \<Rightarrow>
                  (case variables_loop l ds (name file) la0 la1 (variables sel)
                          (lon_min sel, lon_max sel) [] of
                     Inl e \<Rightarrow> (None, emit (Failed_to_process (name file) e) st1)
                   | Inr results \<Rightarrow>
                       (Some results,
                        st1\<lparr>open_handles := remove1 (name file) (open_handles st1)\<rparr>))))"

section \<open>The processing loop (lines 183--198)\<close>

definition process_file ::
  "lib \<Rightarrow> (string \<rightharpoonup> selection) \<Rightarrow> uploaded_file \<Rightarrow> app_state \<Rightarrow> app_state" where
  "process_file l copernicus_selections file st =
     (let st1 = emit (Processing (name file)) st
      in case copernicus_selections (name file) of
           None \<Rightarrow> emit (Skipped_no_selections (name file)) st1
         | Some sel \<Rightarrow>
             (case handle_copernicus_file l file sel st1 of
                (None, st2) \<Rightarrow> st2
              | (Some results, st2) \<Rightarrow>
                  if results \<noteq> [] then st2\<lparr>final_excels := final_excels st2 @ results\<rparr>
                  else st2))"

fun processing_loop ::
  "lib \<Rightarrow> (string \<rightharpoonup> selection) \<Rightarrow> uploaded_file list \<Rightarrow> app_state \<Rightarrow> app_state" where
  "processing_loop l sels [] st = st"
| "processing_loop l sels (file # files) st =
     processing_loop l sels files (process_file l sels file st)"

definition process_all ::
  "lib \<Rightarrow> (string \<rightharpoonup> selection) \<Rightarrow> uploaded_file list \<Rightarrow> app_state \<Rightarrow> app_state" where
  "process_all l sels uploaded_files st =
     (let st1 = processing_loop l sels uploaded_files (st\<lparr>final_excels := []\<rparr>)
      in emit (Successfully_processed (length (final_excels st1))) st1)"

section \<open>Reference notions used in the statements\<close>

text \<open>
  The geographic region of a bounding box, in the specification's words: the cells of a
  variable whose latitude lies between \<open>lat_min\<close> and \<open>lat_max\<close> and whose longitude
  lies between \<open>lon_min\<close> and \<open>lon_max\<close>, bounds included, in stored order. The handler
  does not compute this list; \<open>subset_rows\<close> is compared with it.
\<close>

definition rows_in_box ::
  "dataset \<Rightarrow> pyfloat list list \<Rightarrow> real \<Rightarrow> real \<Rightarrow> real \<Rightarrow> real \<Rightarrow> row list" where
  "rows_in_box ds arr la_min la_max lo_min lo_max =
     concat (map (\<lambda>(la, vs). map (\<lambda>(lo, v). (la, lo, v))
                    (filter (\<lambda>(lo, v). lo_min \<le> lo \<and> lo \<le> lo_max) (zip (ds_lon ds) vs)))
                 (filter (\<lambda>(la, vs). la_min \<le> la \<and> la \<le> la_max) (zip (ds_lat ds) arr)))"

text \<open>
  The value the two interpolation passes give at one query point: the linear
  interpolant's value there, or, where that is NaN, the value of the nearest source
  point. \<open>interpolate\<close> computes whole arrays with masks; it is compared with this
  pointwise reading.
\<close>

definition nearest_value :: "row list \<Rightarrow> real \<times> real \<Rightarrow> pyfloat" where
  "nearest_value df q =
     (case zip (df_points df) (df_values df) of
        [] \<Rightarrow> None
      | (p, w) # r \<Rightarrow> nearest_from (dist2 p q, w) r q)"

definition two_pass_value :: "lib \<Rightarrow> row list \<Rightarrow> real \<times> real \<Rightarrow> pyfloat" where
  "two_pass_value l df q =
     (let v = linear_interpolant l (df_points df) (df_values df) q
      in if isnan v then nearest_value df q else v)"

section \<open>Concrete inputs\<close>

text \<open>
  A field stored north to south: latitudes 10, 9, ..., 0 on one meridian, the value at
  each cell equal to its latitude.
\<close>

definition north_to_south :: dataset where
  "north_to_south =
     \<lparr>ds_lat = [10, 9, 8, 7, 6, 5, 4, 3, 2, 1, 0], ds_lon = [0],
      data_vars = [''t'' \<mapsto> [ [Some 10], [Some 9], [Some 8], [Some 7], [Some 6], [Some 5],
                                [Some 4], [Some 3], [Some 2], [Some 1], [Some 0] ] ]\<rparr>"

text \<open>
  A stand-in for the library's linear interpolant in the concrete inputs below: the
  value of the source point that coincides with the query, NaN for any other query.
  The inputs below only query lattice points that coincide with a source point or lie
  outside the convex hull of the source points, where a piecewise-linear interpolant
  has these values.
\<close>

definition coincident_value ::
  "(real \<times> real) list \<Rightarrow> pyfloat list \<Rightarrow> real \<times> real \<Rightarrow> pyfloat" where
  "coincident_value pts vals q = (case map_of (zip pts vals) q of None \<Rightarrow> None | Some v \<Rightarrow> v)"

text \<open>
  A field on two parallels and three meridians with three variables: \<open>sst\<close> is defined
  everywhere, \<open>chl\<close> is missing on the easternmost meridian, \<open>ice\<close> is missing
  everywhere.
\<close>

definition two_by_three :: dataset where
  "two_by_three =
     \<lparr>ds_lat = [0, 0.125], ds_lon = [0, 0.125, 0.25],
      data_vars = [''sst'' \<mapsto> [ [Some 1, Some 2, Some 3], [Some 4, Some 5, Some 6] ],
                   ''chl'' \<mapsto> [ [Some 1, Some 2, None], [Some 3, Some 4, None] ],
                   ''ice'' \<mapsto> [ [None, None, None], [None, None, None] ] ]\<rparr>"

text \<open>
  Payload \<open>[1]\<close> decodes with either engine, payload \<open>[2]\<close> only with h5netcdf, any
  other payload with neither.
\<close>

definition engines :: lib where
  "engines =
     \<lparr>NETCDF4_AVAILABLE = True,
      open_netcdf4 = (\<lambda>b. if b = [1] then Inr two_by_three
                           else Inl (BackendError ''unknown file format'')),
      open_h5netcdf = (\<lambda>b. if b = [1] \<or> b = [2] then Inr two_by_three
                            else Inl (BackendError ''not a valid HDF5 file'')),
      linear_interpolant = coincident_value\<rparr>"

definition whole_box :: "string list \<Rightarrow> selection" where
  "whole_box vars =
     \<lparr>variables = vars, lat_min = 0, lat_max = 0.125, lon_min = 0, lon_max = 0.25\<rparr>"

definition idle :: app_state where
  "idle = \<lparr>final_excels = [], messages = [], open_handles = []\<rparr>"


text \<open>Three uploads and a selection for two of them.\<close>

definition day1 :: uploaded_file where
  "day1 = \<lparr>name = ''day1.nc'', getvalue = [1]\<rparr>"

definition day2 :: uploaded_file where
  "day2 = \<lparr>name = ''day2.nc'', getvalue = [2]\<rparr>"

definition broken :: uploaded_file where
  "broken = \<lparr>name = ''broken.nc'', getvalue = [3]\<rparr>"

definition picks :: "string \<rightharpoonup> selection" where
  "picks = [''day1.nc'' \<mapsto> whole_box [''sst'', ''ice''],
            ''day2.nc'' \<mapsto> whole_box [''chl''],
            ''broken.nc'' \<mapsto> whole_box [''sst''] ]"

section \<open>The grid builder\<close>

lemma np_arange_length: "length (np_arange a b s) = nat \<lceil>(b - a) / s\<rceil>"
  by (simp add: np_arange_def)

lemma np_arange_nth:
  "i < length (np_arange a b s) \<Longrightarrow> np_arange a b s ! i = a + real i * s"
  by (simp add: np_arange_def)

lemma np_arange_set:
  "set (np_arange a b s) = (\<lambda>i. a + real i * s) ` {i. i < nat \<lceil>(b - a) / s\<rceil>}"
  by (auto simp: np_arange_def)

lemma less_nat_ceiling_iff:
  "i < nat \<lceil>c::real\<rceil> \<longleftrightarrow> real i < c"
proof
  assume "i < nat \<lceil>c\<rceil>"
  then have "int i < \<lceil>c\<rceil>" by linarith
  then show "real i < c" by (simp add: less_ceiling_iff)
next
  assume "real i < c"
  then have "int i < \<lceil>c\<rceil>" by (simp add: less_ceiling_iff)
  then show "i < nat \<lceil>c\<rceil>" by linarith
qed

lemma np_arange_mem_iff:
  assumes "0 < s"
  shows "x \<in> set (np_arange a b s) \<longleftrightarrow> (\<exists>i::nat. x = a + real i * s \<and> x < b)"
proof -
  have "real i < (b - a) / s \<longleftrightarrow> a + real i * s < b" for i
    using assms by (simp add: pos_less_divide_eq algebra_simps)
  then show ?thesis
    by (auto simp: np_arange_set less_nat_ceiling_iff)
qed

lemma np_arange_first:
  assumes "0 < s" "a < b"
  shows "a \<in> set (np_arange a b s)"
  using assms np_arange_mem_iff [of s a a b] by (auto intro: exI [of _ 0])

lemma np_arange_last:
  assumes "0 < s" "a < b"
  shows "np_arange a b s \<noteq> [] \<and> b - s \<le> last (np_arange a b s)"
proof -
  define c where "c = (b - a) / s"
  define n where "n = nat \<lceil>c\<rceil>"
  have len: "length (np_arange a b s) = n"
    by (simp add: np_arange_length n_def c_def)
  have cpos: "0 < c" using assms by (simp add: c_def)
  then have npos: "0 < n" unfolding n_def by (simp add: less_nat_ceiling_iff)
  then have ne: "np_arange a b s \<noteq> []" using len by auto
  have "last (np_arange a b s) = np_arange a b s ! (n - 1)"
    using ne len by (simp add: last_conv_nth)
  also have "\<dots> = a + real (n - 1) * s"
    using npos len by (simp add: np_arange_nth)
  finally have l: "last (np_arange a b s) = a + real (n - 1) * s" .
  have "c \<le> real_of_int \<lceil>c\<rceil>" by (rule le_of_int_ceiling)
  also have "real_of_int \<lceil>c\<rceil> = real n" using cpos unfolding n_def by simp
  finally have c_le: "c \<le> real n" .
  have "real (n - 1) = real n - 1" using npos by (cases n) simp_all
  with c_le have "c - 1 \<le> real (n - 1)" by linarith
  then have "(c - 1) * s \<le> real (n - 1) * s"
    using assms by (simp add: mult_right_mono)
  moreover have "(c - 1) * s = b - a - s" using assms by (simp add: c_def field_simps)
  ultimately show ?thesis using l ne by simp
qed

lemma grid_points_product:
  "grid_points la0 la1 lo0 lo1 = List.product (grid_lats la0 la1) (grid_lons lo0 lo1)"
  by (simp add: grid_points_def product_concat_map)

lemma arange_grid:
  assumes "0 < s" and "0 < eps" and "a \<le> b"
  shows "np_arange a (b + eps) s = map (\<lambda>i. a + real i * s) [0 ..< length (np_arange a (b + eps) s)]
    \<and> a \<in> set (np_arange a (b + eps) s)
    \<and> (\<forall>x \<in> set (np_arange a (b + eps) s). x < b + eps)
    \<and> b + eps - s \<le> last (np_arange a (b + eps) s)
    \<and> (b \<in> set (np_arange a (b + eps) s) \<longleftrightarrow> (\<exists>k::nat. b = a + real k * s))"
proof -
  have ab: "a < b + eps" using assms by simp
  have 1: "np_arange a (b + eps) s = map (\<lambda>i. a + real i * s) [0 ..< length (np_arange a (b + eps) s)]"
    by (simp add: np_arange_def)
  have 2: "a \<in> set (np_arange a (b + eps) s)"
    by (rule np_arange_first [OF assms(1) ab])
  have 3: "\<forall>x \<in> set (np_arange a (b + eps) s). x < b + eps"
    by (auto simp: np_arange_mem_iff [OF assms(1)])
  have 4: "b + eps - s \<le> last (np_arange a (b + eps) s)"
    using np_arange_last [OF assms(1) ab] by simp
  have 5: "b \<in> set (np_arange a (b + eps) s) \<longleftrightarrow> (\<exists>k::nat. b = a + real k * s)"
    using assms(2) by (auto simp: np_arange_mem_iff [OF assms(1)])
  from 1 2 3 4 5 show ?thesis by blast
qed

text \<open>
  Claim C3, as the code has it. For a box with \<open>lat_min \<le> lat_max\<close> and
  \<open>lon_min \<le> lon_max\<close> the lattice is the Cartesian product of the latitude and the
  longitude sequence; each sequence starts at the box minimum and steps by 0.125,
  stays below the maximum plus 0.0001 and ends less than one step short of that bound;
  it contains the box maximum exactly when the maximum lies a whole number of steps
  above the minimum.
\<close>

theorem grid_builder_steps_from_minimum:
  assumes "la0 \<le> la1" and "lo0 \<le> lo1"
  shows "grid_points la0 la1 lo0 lo1 = List.product (grid_lats la0 la1) (grid_lons lo0 lo1)
    \<and> (grid_lats la0 la1 = map (\<lambda>i. la0 + real i * 0.125) [0 ..< length (grid_lats la0 la1)]
      \<and> la0 \<in> set (grid_lats la0 la1)
      \<and> (\<forall>x \<in> set (grid_lats la0 la1). x < la1 + 0.0001)
      \<and> la1 + 0.0001 - 0.125 \<le> last (grid_lats la0 la1)
      \<and> (la1 \<in> set (grid_lats la0 la1) \<longleftrightarrow> (\<exists>k::nat. la1 = la0 + real k * 0.125)))
    \<and> (grid_lons lo0 lo1 = map (\<lambda>i. lo0 + real i * 0.125) [0 ..< length (grid_lons lo0 lo1)]
      \<and> lo0 \<in> set (grid_lons lo0 lo1)
      \<and> (\<forall>x \<in> set (grid_lons lo0 lo1). x < lo1 + 0.0001)
      \<and> lo1 + 0.0001 - 0.125 \<le> last (grid_lons lo0 lo1)
      \<and> (lo1 \<in> set (grid_lons lo0 lo1) \<longleftrightarrow> (\<exists>k::nat. lo1 = lo0 + real k * 0.125)))"
proof -
  have s: "(0::real) < 0.125" and e: "(0::real) < 0.0001" by simp_all
  show ?thesis
    unfolding grid_lats_def grid_lons_def grid_spacing_def
    using arange_grid [OF s e assms(1)] arange_grid [OF s e assms(2)]
      grid_points_product [of la0 la1 lo0 lo1, unfolded grid_lats_def grid_lons_def grid_spacing_def]
    by blast
qed

text \<open>
  The box from 0 to 0.2 degrees on both axes: the sequences are \<open>[0, 0.125]\<close>, and the
  maximum 0.2 is not a lattice coordinate.
\<close>

theorem grid_builder_misses_maximum:
  "(0::real) \<le> 0.2 \<and> grid_lats 0 0.2 = [0, 0.125] \<and> grid_lons 0 0.2 = [0, 0.125]
   \<and> 0.2 \<notin> set (grid_lats 0 0.2) \<and> 0.2 \<notin> set (grid_lons 0 0.2)
   \<and> grid_points 0 0.2 0 0.2 = [(0, 0), (0, 0.125), (0.125, 0), (0.125, 0.125)]"
  by (simp add: grid_points_def grid_lats_def grid_lons_def grid_spacing_def np_arange_def
      upt_conv_Cons)

theorem grid_builder_steps_from_minimum_witness:
  "(0::real) \<le> 0.25 \<and> (10::real) \<le> 10.2
   \<and> grid_points 0 0.25 10 10.2 = List.product (grid_lats 0 0.25) (grid_lons 10 10.2)
   \<and> (0.25::real) \<in> set (grid_lats 0 0.25) \<and> (10.2::real) \<notin> set (grid_lons 10 10.2)
   \<and> 10.2 + 0.0001 - 0.125 \<le> last (grid_lons 10 10.2)"
proof -
  have h1: "(0::real) \<le> 0.25" and h2: "(10::real) \<le> 10.2" by simp_all
  have k: "\<exists>k::nat. (0.25::real) = 0 + real k * 0.125"
    by (rule exI [of _ 2]) simp
  have nk: "\<not> (\<exists>k::nat. (10.2::real) = 10 + real k * 0.125)"
  proof
    assume "\<exists>k::nat. (10.2::real) = 10 + real k * 0.125"
    then obtain k :: nat where "(10.2::real) = 10 + real k * 0.125" ..
    then have "real k * 5 = 8" by simp
    then have "real (k * 5) = real 8" by simp
    then have "k * 5 = 8" by (simp only: of_nat_eq_iff)
    then show False by presburger
  qed
  note g = grid_builder_steps_from_minimum [OF h1 h2]
  from g have p: "grid_points 0 0.25 10 10.2 = List.product (grid_lats 0 0.25) (grid_lons 10 10.2)"
    by (rule conjunct1)
  from g k have a: "(0.25::real) \<in> set (grid_lats 0 0.25)" by blast
  from g nk have b: "(10.2::real) \<notin> set (grid_lons 10 10.2)" by blast
  from g have c: "10.2 + 0.0001 - 0.125 \<le> last (grid_lons 10 10.2)" by blast
  from h1 h2 p a b c show ?thesis by blast
qed

text \<open>
  When the lower latitude bound handed to the grid exceeds the upper one, as after the
  exchange of the bounds for a descending axis, the lattice has no point.
\<close>

lemma grid_points_empty_when_bounds_exchanged:
  assumes "la1 + 0.0001 \<le> la0"
  shows "grid_points la0 la1 lo0 lo1 = []"
proof -
  have "(la1 + 0.0001 - la0) / 0.125 \<le> 0" using assms by simp
  then have "\<lceil>(la1 + 0.0001 - la0) / 0.125\<rceil> \<le> 0" by (simp add: ceiling_le_iff)
  then have "grid_lats la0 la1 = []"
    by (simp add: grid_lats_def np_arange_def grid_spacing_def)
  then show ?thesis by (simp add: grid_points_def)
qed

section \<open>Label slicing and the latitude swap\<close>

lemma py_slice_Cons_Suc: "py_slice (Suc i) (Suc j) (x # xs) = py_slice i j xs"
  by (simp add: py_slice_def)

lemma py_slice_0_Suc: "py_slice 0 (Suc j) (x # xs) = x # py_slice 0 j xs"
  by (simp add: py_slice_def)

lemma py_slice_to_0: "py_slice i 0 xs = []"
  by (simp add: py_slice_def)

lemma slice_sorted_key:
  assumes "sorted (map f xs)"
  shows "py_slice (searchsorted_left (map f xs) a) (searchsorted_right (map f xs) b) xs
           = filter (\<lambda>x. a \<le> f x \<and> f x \<le> b) xs"
  using assms
proof (induction xs)
  case Nil
  show ?case by (simp add: py_slice_def)
next
  case (Cons x xs)
  then have le: "\<forall>y \<in> set xs. f x \<le> f y" and srt: "sorted (map f xs)" by auto
  note IH = Cons.IH [OF srt]
  show ?case
  proof (cases "f x \<le> b")
    case False
    then have "\<forall>y \<in> set xs. \<not> f y \<le> b" using le by fastforce
    then have "filter (\<lambda>x. a \<le> f x \<and> f x \<le> b) xs = []" by (simp add: filter_empty_conv)
    with False show ?thesis
      by (simp add: searchsorted_right_def py_slice_to_0)
  next
    case xb: True
    show ?thesis
    proof (cases "f x < a")
      case True
      with xb IH show ?thesis
        by (simp add: searchsorted_left_def searchsorted_right_def py_slice_Cons_Suc)
    next
      case False
      then have "\<forall>y \<in> set xs. \<not> f y < a" using le by fastforce
      then have z: "searchsorted_left (map f xs) a = 0"
        by (cases xs) (auto simp: searchsorted_left_def)
      from False xb IH z show ?thesis
        by (simp add: searchsorted_left_def searchsorted_right_def py_slice_0_Suc)
    qed
  qed
qed

lemma py_slice_rev:
  assumes "i \<le> length xs" and "j \<le> length xs"
  shows "py_slice (length xs - j) (length xs - i) xs = rev (py_slice i j (rev xs))"
proof -
  have "rev (py_slice i j (rev xs)) = drop ((length xs - i) - (j - i)) (take (length xs - i) xs)"
    by (simp add: py_slice_def rev_take rev_drop)
  also have "\<dots> = take ((length xs - i) - ((length xs - i) - (j - i)))
                      (drop ((length xs - i) - (j - i)) xs)"
    by (simp add: drop_take)
  also have "\<dots> = py_slice (length xs - j) (length xs - i) xs"
  proof (cases "i \<le> j")
    case True
    with assms show ?thesis by (simp add: py_slice_def)
  next
    case False
    with assms show ?thesis by (simp add: py_slice_def)
  qed
  finally show ?thesis by simp
qed

lemma searchsorted_le_length:
  "searchsorted_left xs v \<le> length xs" "searchsorted_right xs v \<le> length xs"
  by (simp_all add: searchsorted_left_def searchsorted_right_def length_takeWhile_le)

lemma slice_sorted_rev_key:
  assumes "sorted (rev (map f xs))"
  shows "py_slice (length xs - searchsorted_right (rev (map f xs)) a)
                  (length xs - searchsorted_left (rev (map f xs)) b) xs
           = filter (\<lambda>x. b \<le> f x \<and> f x \<le> a) xs"
proof -
  let ?ys = "rev xs"
  have m: "rev (map f xs) = map f ?ys" by (simp add: rev_map)
  have i: "searchsorted_left (map f ?ys) b \<le> length xs"
    and j: "searchsorted_right (map f ?ys) a \<le> length xs"
    using searchsorted_le_length [of "map f ?ys"] by simp_all
  have "py_slice (length xs - searchsorted_right (map f ?ys) a)
                 (length xs - searchsorted_left (map f ?ys) b) xs
          = rev (py_slice (searchsorted_left (map f ?ys) b) (searchsorted_right (map f ?ys) a) ?ys)"
    by (rule py_slice_rev [OF i j])
  also have "\<dots> = rev (filter (\<lambda>x. b \<le> f x \<and> f x \<le> a) ?ys)"
    using assms by (simp only: slice_sorted_key m)
  also have "\<dots> = filter (\<lambda>x. b \<le> f x \<and> f x \<le> a) xs"
    by (simp add: rev_filter)
  finally show ?thesis by (simp only: m)
qed

lemma select_labels_ascending:
  assumes "sorted xs" and "length ys = length xs"
  shows "\<exists>i j. slice_indexer xs a b = Inr (i, j)
           \<and> py_slice i j (zip xs ys) = filter (\<lambda>(x, y). a \<le> x \<and> x \<le> b) (zip xs ys)"
proof -
  have m: "map fst (zip xs ys) = xs" using assms(2) by simp
  have "sorted (map fst (zip xs ys))" using assms(1) by (simp only: m)
  from slice_sorted_key [OF this, of a b]
  have "py_slice (searchsorted_left xs a) (searchsorted_right xs b) (zip xs ys)
          = filter (\<lambda>p. a \<le> fst p \<and> fst p \<le> b) (zip xs ys)"
    by (simp only: m)
  moreover have "(\<lambda>p::real \<times> 'a. a \<le> fst p \<and> fst p \<le> b) = (\<lambda>(x, y). a \<le> x \<and> x \<le> b)"
    by auto
  ultimately show ?thesis using assms(1) by (simp add: slice_indexer_def)
qed

lemma select_labels_descending:
  assumes "\<not> sorted xs" and "sorted (rev xs)" and "length ys = length xs"
  shows "\<exists>i j. slice_indexer xs a b = Inr (i, j)
           \<and> py_slice i j (zip xs ys) = filter (\<lambda>(x, y). b \<le> x \<and> x \<le> a) (zip xs ys)"
proof -
  have m: "map fst (zip xs ys) = xs" using assms(3) by simp
  have l: "length (zip xs ys) = length xs" using assms(3) by simp
  have "sorted (rev (map fst (zip xs ys)))" using assms(2) by (simp only: m)
  from slice_sorted_rev_key [OF this, of a b]
  have "py_slice (length xs - searchsorted_right (rev xs) a)
                 (length xs - searchsorted_left (rev xs) b) (zip xs ys)
          = filter (\<lambda>p. b \<le> fst p \<and> fst p \<le> a) (zip xs ys)"
    by (simp only: m l)
  moreover have "(\<lambda>p::real \<times> 'a. b \<le> fst p \<and> fst p \<le> a) = (\<lambda>(x, y). b \<le> x \<and> x \<le> a)"
    by auto
  ultimately show ?thesis using assms(1,2) by (simp add: slice_indexer_def)
qed

lemma strictly_descending_axis:
  assumes "sorted_wrt (>) (xs::real list)" and "2 \<le> length xs"
  shows "\<not> sorted xs" and "sorted (rev xs)" and "hd xs > last xs"
proof -
  from assms(2) obtain x y zs where xs: "xs = x # y # zs"
    by (cases xs; cases "tl xs") auto
  with assms(1) have xy: "x > y" by simp
  then show "\<not> sorted xs" using xs by auto
  have "sorted_wrt (\<ge>) xs"
    by (rule sorted_wrt_mono_rel [OF _ assms(1)]) simp
  then show "sorted (rev xs)" by (simp add: sorted_wrt_rev)
  have "last xs \<in> set (y # zs)" using xs by auto
  then show "hd xs > last xs" using assms(1) xs by auto
qed

lemma subset_rows_from_slices:
  assumes lat: "slice_indexer (ds_lat ds) la0 la1 = Inr (i, j)"
      "py_slice i j (zip (ds_lat ds) arr) = filter (\<lambda>(la, vs). a \<le> la \<and> la \<le> b) (zip (ds_lat ds) arr)"
    and lon: "sorted (ds_lon ds)"
    and var: "data_vars ds var = Some arr"
    and cols: "\<forall>vs \<in> set arr. length vs = length (ds_lon ds)"
  shows "subset_rows ds var la0 la1 lo0 lo1 = Inr (rows_in_box ds arr a b lo0 lo1)"
proof -
  obtain k l where kl: "slice_indexer (ds_lon ds) lo0 lo1 = Inr (k, l)"
    using lon by (simp add: slice_indexer_def)
  have inner: "py_slice k l (zip (ds_lon ds) vs)
                 = filter (\<lambda>(lo, v). lo0 \<le> lo \<and> lo \<le> lo1) (zip (ds_lon ds) vs)"
    if "vs \<in> set arr" for vs
  proof -
    have "length vs = length (ds_lon ds)" using cols that by simp
    from select_labels_ascending [OF lon this, of lo0 lo1] kl show ?thesis by simp
  qed
  have "map (\<lambda>(la, vs). map (\<lambda>(lo, v). (la, lo, v)) (py_slice k l (zip (ds_lon ds) vs)))
            (filter (\<lambda>(la, vs). a \<le> la \<and> la \<le> b) (zip (ds_lat ds) arr))
      = map (\<lambda>(la, vs). map (\<lambda>(lo, v). (la, lo, v))
                (filter (\<lambda>(lo, v). lo0 \<le> lo \<and> lo \<le> lo1) (zip (ds_lon ds) vs)))
            (filter (\<lambda>(la, vs). a \<le> la \<and> la \<le> b) (zip (ds_lat ds) arr))"
    by (rule map_cong) (auto simp: inner dest: set_zip_rightD)
  then show ?thesis
    unfolding subset_rows_def rows_in_box_def
    by (simp only: var lat kl option.case sum.case prod.case)
qed

text \<open>
  Claim C4. On a strictly descending latitude axis the handler exchanges \<open>lat_min\<close>
  and \<open>lat_max\<close>, and the slice taken with the exchanged bounds holds exactly the cells
  of the requested box. On the axis 10, 9, ..., 0 with the box from 2 to 5 these are the
  rows of latitudes 5, 4, 3 and 2.
\<close>

theorem descending_latitude_slice:
  assumes "sorted_wrt (>) (ds_lat ds)" and "2 \<le> length (ds_lat ds)"
    and "sorted (ds_lon ds)"
    and "data_vars ds var = Some arr"
    and "length arr = length (ds_lat ds)"
    and "\<forall>vs \<in> set arr. length vs = length (ds_lon ds)"
  shows "lat_bounds (ds_lat ds) la_min la_max = Inr (la_max, la_min)
    \<and> subset_rows ds var la_max la_min lo_min lo_max
        = Inr (rows_in_box ds arr la_min la_max lo_min lo_max)"
proof -
  note d = strictly_descending_axis [OF assms(1,2)]
  have ne: "ds_lat ds \<noteq> []" using assms(2) by auto
  then have b: "lat_bounds (ds_lat ds) la_min la_max = Inr (la_max, la_min)"
    using d(3) by (simp add: lat_bounds_def split: list.splits)
  from select_labels_descending [OF d(1,2) assms(5), of la_max la_min]
  obtain i j where "slice_indexer (ds_lat ds) la_max la_min = Inr (i, j)"
    and "py_slice i j (zip (ds_lat ds) arr)
           = filter (\<lambda>(la, vs). la_min \<le> la \<and> la \<le> la_max) (zip (ds_lat ds) arr)"
    by blast
  from subset_rows_from_slices [OF this assms(3,4,6)] b show ?thesis by simp
qed

text \<open>The same region is selected, without the exchange, when the axis ascends.\<close>

lemma ascending_latitude_slice:
  assumes "sorted (ds_lat ds)" and "ds_lat ds \<noteq> []"
    and "sorted (ds_lon ds)"
    and "data_vars ds var = Some arr"
    and "length arr = length (ds_lat ds)"
    and "\<forall>vs \<in> set arr. length vs = length (ds_lon ds)"
  shows "lat_bounds (ds_lat ds) la_min la_max = Inr (la_min, la_max)
    \<and> subset_rows ds var la_min la_max lo_min lo_max
        = Inr (rows_in_box ds arr la_min la_max lo_min lo_max)"
proof -
  have "hd (ds_lat ds) \<le> last (ds_lat ds)"
    using assms(1,2) by (cases "ds_lat ds") (auto split: if_splits)
  then have b: "lat_bounds (ds_lat ds) la_min la_max = Inr (la_min, la_max)"
    using assms(2) by (simp add: lat_bounds_def split: list.splits)
  from select_labels_ascending [OF assms(1,5), of la_min la_max]
  obtain i j where "slice_indexer (ds_lat ds) la_min la_max = Inr (i, j)"
    and "py_slice i j (zip (ds_lat ds) arr)
           = filter (\<lambda>(la, vs). la_min \<le> la \<and> la \<le> la_max) (zip (ds_lat ds) arr)"
    by blast
  from subset_rows_from_slices [OF this assms(3,4,6)] b show ?thesis by simp
qed


theorem descending_latitude_slice_witness:
  "lat_bounds (ds_lat north_to_south) 2 5 = Inr (5, 2)
   \<and> subset_rows north_to_south ''t'' 5 2 0 0
       = Inr [(5, 0, Some 5), (4, 0, Some 4), (3, 0, Some 3), (2, 0, Some 2)]"
proof -
  let ?arr = "[ [Some 10], [Some 9], [Some 8], [Some 7], [Some 6], [Some 5],
               [Some 4], [Some 3], [Some 2], [Some 1], [Some (0::real)] ]"
  have h1: "sorted_wrt (>) (ds_lat north_to_south)"
    and h2: "2 \<le> length (ds_lat north_to_south)"
    and h3: "sorted (ds_lon north_to_south)"
    and h4: "data_vars north_to_south ''t'' = Some ?arr"
    and h5: "length ?arr = length (ds_lat north_to_south)"
    and h6: "\<forall>vs \<in> set ?arr. length vs = length (ds_lon north_to_south)"
    by (simp_all add: north_to_south_def)
  have r: "rows_in_box north_to_south ?arr 2 5 0 0
             = [(5, 0, Some 5), (4, 0, Some 4), (3, 0, Some 3), (2, 0, Some 2)]"
    by (simp add: rows_in_box_def north_to_south_def)
  from descending_latitude_slice [OF h1 h2 h3 h4 h5 h6, of 2 5 0 0] r
  show ?thesis by simp
qed

section \<open>Longitude rewrap\<close>



lemma rint_nearest: "\<bar>of_int (rint y) - y\<bar> \<le> 1 / 2"
proof -
  define f where "f = \<lfloor>y\<rfloor>"
  have b: "of_int f \<le> y" "y < of_int f + 1" unfolding f_def by linarith+
  have r: "rint y = (if y - of_int f < 1 / 2 then f
                     else if 1 / 2 < y - of_int f then f + 1
                     else if even f then f else f + 1)"
    by (simp add: rint_def Let_def f_def)
  show ?thesis
  proof (cases "y - of_int f < 1 / 2")
    case True
    then show ?thesis using b by (simp add: r abs_if)
  next
    case False
    then have "rint y = f \<and> y - of_int f = 1 / 2 \<or> rint y = f + 1"
      by (auto simp: r)
    then show ?thesis
    proof
      assume "rint y = f \<and> y - of_int f = 1 / 2"
      then show ?thesis by (simp add: abs_if)
    next
      assume "rint y = f + 1"
      then show ?thesis using b False by (simp add: abs_if)
    qed
  qed
qed






lemma binade_down_spec:
  "0 < a \<Longrightarrow> a < 1 \<Longrightarrow> 1 \<le> a * 2 ^ binade_down a \<and> a * 2 ^ binade_down a < 2"
proof (induction a rule: binade_down.induct)
  case (1 a)
  have s: "binade_down a = Suc (binade_down (2 * a))"
    using "1.prems" by (simp add: binade_down.simps [of a])
  show ?case
  proof (cases "2 * a < 1")
    case True
    from "1.IH" [of] "1.prems" True
    have "1 \<le> 2 * a * 2 ^ binade_down (2 * a) \<and> 2 * a * 2 ^ binade_down (2 * a) < 2"
      by simp
    then show ?thesis by (simp add: s mult_ac)
  next
    case False
    then have "binade_down (2 * a) = 0" by (simp add: binade_down.simps [of "2 * a"])
    with False "1.prems" show ?thesis by (simp add: s)
  qed
qed









section \<open>The two interpolation passes\<close>

lemma mask_assign_two_pass:
  "mask_assign (map L gp) (map isnan (map L gp)) (map N (mask_select gp (map isnan (map L gp))))
     = Inr (map (\<lambda>q. if isnan (L q) then N q else L q) gp)"
  by (induction gp) (simp_all add: mask_select_def)

lemma no_nan_two_pass:
  assumes "\<not> (\<exists>m \<in> set (map isnan (map L gp)). m)"
  shows "map L gp = map (\<lambda>q. if isnan (L q) then N q else L q) gp"
  using assms by (induction gp) auto

lemma df_points_Nil: "df_points df = [] \<longleftrightarrow> df = []"
  by (simp add: df_points_def)

lemma zip_points_values:
  "zip (df_points df) (df_values df) = map (\<lambda>(la, lo, v). ((la, lo), v)) df"
  by (induction df) (auto simp: df_points_def df_values_def)

lemma interpolate_two_pass:
  "interpolate l df gp =
     (if df = [] then Inl ValueError
      else if collinear_points (df_points df) then Inl QhullError
      else Inr (map (two_pass_value l df) gp))"
proof (cases "df = [] \<or> collinear_points (df_points df)")
  case True
  then show ?thesis
    by (auto simp: interpolate_def griddata_linear_def df_points_Nil)
next
  case False
  then obtain r rs where df: "df = r # rs" by (cases df) auto
  obtain la lo w where r: "r = (la, lo, w)" by (cases r)
  let ?L = "linear_interpolant l (df_points df) (df_values df)"
  let ?N = "\<lambda>q. nearest_from (dist2 (la, lo) q, w) (zip (df_points rs) (df_values rs)) q"
  have z: "zip (df_points df) (df_values df) = ((la, lo), w) # zip (df_points rs) (df_values rs)"
    by (simp add: df r df_points_def df_values_def)
  have lin: "griddata_linear l (df_points df) (df_values df) gp = Inr (map ?L gp)"
    using False by (simp add: griddata_linear_def df_points_Nil)
  have near: "griddata_nearest (df_points df) (df_values df) xi = Inr (map ?N xi)" for xi
    by (simp add: griddata_nearest_def z)
  have tp: "two_pass_value l df = (\<lambda>q. if isnan (?L q) then ?N q else ?L q)"
    by (rule ext) (simp add: two_pass_value_def nearest_value_def z Let_def)
  show ?thesis
  proof (cases "\<exists>m \<in> set (map isnan (map ?L gp)). m")
    case True
    then have "interpolate l df gp
        = mask_assign (map ?L gp) (map isnan (map ?L gp))
            (map ?N (mask_select gp (map isnan (map ?L gp))))"
      unfolding interpolate_def Let_def lin near by (simp only: sum.case if_True)
    then show ?thesis using False by (simp only: mask_assign_two_pass tp) simp
  next
    case nn: False
    then have "interpolate l df gp = Inr (map ?L gp)"
      unfolding interpolate_def Let_def lin by (simp only: sum.case if_False)
    then show ?thesis using False no_nan_two_pass [OF nn, of ?N] by (simp only: tp) simp
  qed
qed

lemma nearest_from_value:
  "nearest_from (d, v) r q = v \<or> nearest_from (d, v) r q \<in> snd ` set r"
proof (induction r arbitrary: d v)
  case Nil
  show ?case by simp
next
  case (Cons a r)
  obtain p w where a: "a = (p, w)" by (cases a)
  show ?case using Cons.IH [of "dist2 p q" w] Cons.IH [of d v]
    by (auto simp: a)
qed

lemma nearest_value_defined:
  assumes "df \<noteq> []" and "\<forall>(la, lo, v) \<in> set df. \<not> isnan v"
  shows "\<not> isnan (nearest_value df q)"
proof -
  obtain r rs where df: "df = r # rs" using assms(1) by (cases df) auto
  obtain la lo w where r: "r = (la, lo, w)" by (cases r)
  have z: "zip (df_points df) (df_values df) = ((la, lo), w) # zip (df_points rs) (df_values rs)"
    by (simp add: df r df_points_def df_values_def)
  have vals: "\<forall>v \<in> set (df_values df). \<not> isnan v"
    using assms(2) by (auto simp: df_values_def)
  have "nearest_value df q = w \<or> nearest_value df q \<in> snd ` set (zip (df_points rs) (df_values rs))"
    unfolding nearest_value_def z using nearest_from_value by simp
  moreover have "snd ` set (zip (df_points rs) (df_values rs)) \<subseteq> set (df_values df)"
    by (auto simp: df df_values_def dest: set_zip_rightD)
  moreover have "w \<in> set (df_values df)" by (simp add: df r df_values_def)
  ultimately show ?thesis using vals by blast
qed

lemma two_pass_value_defined:
  assumes "df \<noteq> []" and "\<forall>(la, lo, v) \<in> set df. \<not> isnan v"
  shows "\<not> isnan (two_pass_value l df q)"
  using nearest_value_defined [OF assms] by (simp add: two_pass_value_def Let_def)

lemma dropna_defined: "\<forall>(la, lo, v) \<in> set (dropna sub). \<not> isnan v"
  by (auto simp: dropna_def)

lemma rewrap_lon_defined:
  assumes "\<forall>(la, lo, v) \<in> set df. \<not> isnan v"
  shows "\<forall>(la, lo, v) \<in> set (fst (rewrap_lon df lo0 lo1)). \<not> isnan v"
  using assms by (auto simp: rewrap_lon_def)

lemma nearest_from_closest:
  "\<exists>d'. d' \<le> d
      \<and> ((d' = d \<and> nearest_from (d, v) r q = v)
          \<or> (\<exists>(p, w) \<in> set r. d' = dist2 p q \<and> nearest_from (d, v) r q = w))
      \<and> (\<forall>(p, w) \<in> set r. d' \<le> dist2 p q)"
proof (induction r arbitrary: d v)
  case Nil
  show ?case by simp
next
  case (Cons a r)
  obtain p w where a: "a = (p, w)" by (cases a)
  show ?case
  proof (cases "dist2 p q < d")
    case True
    from Cons.IH [of "dist2 p q" w] obtain d' where
      "d' \<le> dist2 p q"
      "(d' = dist2 p q \<and> nearest_from (dist2 p q, w) r q = w)
          \<or> (\<exists>(p', w') \<in> set r. d' = dist2 p' q \<and> nearest_from (dist2 p q, w) r q = w')"
      "\<forall>(p', w') \<in> set r. d' \<le> dist2 p' q"
      by blast
    with True show ?thesis
      unfolding a by (intro exI [of _ d']) auto
  next
    case False
    from Cons.IH [of d v] obtain d' where
      "d' \<le> d"
      "(d' = d \<and> nearest_from (d, v) r q = v)
          \<or> (\<exists>(p', w') \<in> set r. d' = dist2 p' q \<and> nearest_from (d, v) r q = w')"
      "\<forall>(p', w') \<in> set r. d' \<le> dist2 p' q"
      by blast
    with False show ?thesis
      unfolding a by (intro exI [of _ d']) auto
  qed
qed

lemma nearest_value_closest:
  assumes "df \<noteq> []"
  shows "\<exists>(la, lo, v) \<in> set df. nearest_value df q = v
           \<and> (\<forall>(la', lo', v') \<in> set df. dist2 (la, lo) q \<le> dist2 (la', lo') q)"
proof -
  obtain r rs where df: "df = r # rs" using assms(1) by (cases df) auto
  obtain la lo w where r: "r = (la, lo, w)" by (cases r)
  let ?z = "map (\<lambda>(la, lo, v). ((la, lo), v)) rs"
  have nv: "nearest_value df q = nearest_from (dist2 (la, lo) q, w) ?z q"
    by (simp add: nearest_value_def zip_points_values df r)
  from nearest_from_closest [of "dist2 (la, lo) q" w ?z q] obtain d' where
    le: "d' \<le> dist2 (la, lo) q"
    and pick: "(d' = dist2 (la, lo) q \<and> nearest_from (dist2 (la, lo) q, w) ?z q = w)
          \<or> (\<exists>(p', w') \<in> set ?z. d' = dist2 p' q \<and> nearest_from (dist2 (la, lo) q, w) ?z q = w')"
    and low: "\<forall>(p', w') \<in> set ?z. d' \<le> dist2 p' q"
    by blast
  have all: "\<forall>(la', lo', v') \<in> set df. d' \<le> dist2 (la', lo') q"
    using le low by (auto simp: df r)
  from pick show ?thesis
  proof
    assume "d' = dist2 (la, lo) q \<and> nearest_from (dist2 (la, lo) q, w) ?z q = w"
    then show ?thesis using all nv by (auto simp: df r)
  next
    assume "\<exists>(p', w') \<in> set ?z. d' = dist2 p' q \<and> nearest_from (dist2 (la, lo) q, w) ?z q = w'"
    then obtain la' lo' w' where "(la', lo', w') \<in> set rs" "d' = dist2 (la', lo') q"
      "nearest_from (dist2 (la, lo) q, w) ?z q = w'"
      by auto
    then show ?thesis using all nv by (auto simp: df r)
  qed
qed

lemma process_variable_eq:
  assumes "subset_rows ds var la0 la1 (fst lons) (snd lons) = Inr sub"
    and "rewrap_lon (dropna sub) (fst lons) (snd lons) = (df, lo0, lo1)"
  shows "process_variable l ds fn la0 la1 var lons =
     (if df = [] then Inl ValueError
      else if collinear_points (df_points df) then Inl QhullError
      else Inr (\<lparr>art_name = out_name fn var,
                 content = sort_values (grid_df (grid_points la0 la1 lo0 lo1)
                             (map (two_pass_value l df) (grid_points la0 la1 lo0 lo1)))\<rparr>,
                lo0, lo1))"
  by (simp add: process_variable_def assms interpolate_two_pass Let_def)

lemma process_variable_no_subset:
  "subset_rows ds var la0 la1 (fst lons) (snd lons) = Inl e
     \<Longrightarrow> process_variable l ds fn la0 la1 var lons = Inl e"
  by (simp add: process_variable_def)

lemma scatter_points_defined:
  assumes "rewrap_lon (dropna sub) lo0 lo1 = (df, lo0', lo1')"
  shows "\<forall>(la, lo, v) \<in> set df. \<not> isnan v"
  using rewrap_lon_defined [OF dropna_defined, of sub lo0 lo1] assms by simp

text \<open>
  Claim C2. Take the scatter points of one variable as the handler builds them (the
  clipped rows without the missing ones, longitudes rewrapped). If three of them are not
  on one line, the linear pass followed by the nearest-neighbour pass returns one value
  per lattice point and none of them is NaN, and the unit yields its table. If all of
  them are on one line, which includes an empty set and sets of one or two points,
  interpolation raises and the unit fails with that error instead of yielding a table.
\<close>

theorem two_passes_define_every_lattice_value:
  assumes "subset_rows ds var la0 la1 (fst lons) (snd lons) = Inr sub"
    and "rewrap_lon (dropna sub) (fst lons) (snd lons) = (df, lo0, lo1)"
  shows "(\<not> collinear_points (df_points df) \<longrightarrow>
            (\<exists>gv a. interpolate l df (grid_points la0 la1 lo0 lo1) = Inr gv
               \<and> length gv = length (grid_points la0 la1 lo0 lo1)
               \<and> (\<forall>v \<in> set gv. \<not> isnan v)
               \<and> process_variable l ds fn la0 la1 var lons = Inr (a, lo0, lo1)
               \<and> content a = sort_values (grid_df (grid_points la0 la1 lo0 lo1) gv)))
       \<and> (collinear_points (df_points df) \<longrightarrow>
            (\<exists>e. interpolate l df (grid_points la0 la1 lo0 lo1) = Inl e
               \<and> process_variable l ds fn la0 la1 var lons = Inl e))"
proof (intro conjI impI)
  assume nc: "\<not> collinear_points (df_points df)"
  then have ne: "df \<noteq> []" by (auto simp: collinear_points_def df_points_def)
  let ?gp = "grid_points la0 la1 lo0 lo1"
  let ?gv = "map (two_pass_value l df) ?gp"
  have "interpolate l df ?gp = Inr ?gv"
    using nc ne by (simp add: interpolate_two_pass)
  moreover have "length ?gv = length ?gp" by simp
  moreover have "\<forall>v \<in> set ?gv. \<not> isnan v"
    using two_pass_value_defined [OF ne scatter_points_defined [OF assms(2)] ] by auto
  moreover have "process_variable l ds fn la0 la1 var lons
      = Inr (\<lparr>art_name = out_name fn var, content = sort_values (grid_df ?gp ?gv)\<rparr>, lo0, lo1)"
    using nc ne by (simp add: process_variable_eq [OF assms])
  ultimately show "\<exists>gv a. interpolate l df ?gp = Inr gv
               \<and> length gv = length ?gp
               \<and> (\<forall>v \<in> set gv. \<not> isnan v)
               \<and> process_variable l ds fn la0 la1 var lons = Inr (a, lo0, lo1)
               \<and> content a = sort_values (grid_df ?gp gv)"
    by (intro exI [of _ ?gv] exI [of _ "\<lparr>art_name = out_name fn var, content = sort_values (grid_df ?gp ?gv)\<rparr>"]) simp
next
  assume "collinear_points (df_points df)"
  then show "\<exists>e. interpolate l df (grid_points la0 la1 lo0 lo1) = Inl e
               \<and> process_variable l ds fn la0 la1 var lons = Inl e"
    by (auto simp: process_variable_eq [OF assms] interpolate_two_pass)
qed

theorem two_passes_define_every_lattice_value_witness:
  "(\<exists>gv a. interpolate engines
               [(0, 0, Some 1), (0, 0.125, Some 2), (0.125, 0, Some 3), (0.125, 0.125, Some 4)]
               (grid_points 0 0.125 0 0.25) = Inr gv
      \<and> length gv = length (grid_points 0 0.125 0 0.25)
      \<and> (\<forall>v \<in> set gv. \<not> isnan v)
      \<and> process_variable engines two_by_three ''day1.nc'' 0 0.125 ''chl'' (0, 0.25)
          = Inr (a, 0, 0.25)
      \<and> content a = sort_values (grid_df (grid_points 0 0.125 0 0.25) gv))
   \<and> (\<exists>e. interpolate engines [] (grid_points 0 0.125 0 0.25) = Inl e
      \<and> process_variable engines two_by_three ''day1.nc'' 0 0.125 ''ice'' (0, 0.25) = Inl e)"
proof -
  let ?chl = "[(0, 0, Some 1), (0, 0.125, Some 2), (0, 0.25, None),
               (0.125, 0, Some 3), (0.125, 0.125, Some 4), (0.125, 0.25, None)] :: row list"
  let ?ice = "[(0, 0, None), (0, 0.125, None), (0, 0.25, None),
               (0.125, 0, None), (0.125, 0.125, None), (0.125, 0.25, None)] :: row list"
  let ?df = "[(0, 0, Some 1), (0, 0.125, Some 2), (0.125, 0, Some 3), (0.125, 0.125, Some 4)] :: row list"
  have s1: "subset_rows two_by_three ''chl'' 0 0.125 (fst (0, 0.25)) (snd (0, 0.25)) = Inr ?chl"
    by (simp add: subset_rows_def two_by_three_def slice_indexer_def searchsorted_left_def
        searchsorted_right_def py_slice_def)
  have r1: "rewrap_lon (dropna ?chl) (fst (0, 0.25)) (snd (0, 0.25)) = (?df, 0, 0.25)"
    by (simp add: rewrap_lon_def dropna_def isnan_def lon_max_exceeds_180_def)
  have c1: "\<not> collinear_points (df_points ?df)"
    by (simp add: collinear_points_def df_points_def cross_def)
  have s2: "subset_rows two_by_three ''ice'' 0 0.125 (fst (0, 0.25)) (snd (0, 0.25)) = Inr ?ice"
    by (simp add: subset_rows_def two_by_three_def slice_indexer_def searchsorted_left_def
        searchsorted_right_def py_slice_def)
  have r2: "rewrap_lon (dropna ?ice) (fst (0, 0.25)) (snd (0, 0.25)) = ([], 0, 0.25)"
    by (simp add: rewrap_lon_def dropna_def isnan_def lon_max_exceeds_180_def)
  have c2: "collinear_points (df_points [])"
    by (simp add: collinear_points_def df_points_def)
  from two_passes_define_every_lattice_value [OF s1 r1, of engines "''day1.nc''"] c1
  have 1: "\<exists>gv a. interpolate engines ?df (grid_points 0 0.125 0 0.25) = Inr gv
      \<and> length gv = length (grid_points 0 0.125 0 0.25)
      \<and> (\<forall>v \<in> set gv. \<not> isnan v)
      \<and> process_variable engines two_by_three ''day1.nc'' 0 0.125 ''chl'' (0, 0.25)
          = Inr (a, 0, 0.25)
      \<and> content a = sort_values (grid_df (grid_points 0 0.125 0 0.25) gv)"
    by blast
  from two_passes_define_every_lattice_value [OF s2 r2, of engines "''day1.nc''"] c2
  have 2: "\<exists>e. interpolate engines [] (grid_points 0 0.125 0 0.25) = Inl e
      \<and> process_variable engines two_by_three ''day1.nc'' 0 0.125 ''ice'' (0, 0.25) = Inl e"
    by blast
  from 1 2 show ?thesis by blast
qed

section \<open>The result table\<close>

lemma round3_three_decimals:
  "\<exists>k::int. round3 x = of_int k / 1000 \<and> \<bar>round3 x - x\<bar> \<le> 1 / 2000"
proof -
  have "\<bar>of_int (rint (x * 1000)) - x * 1000\<bar> \<le> 1 / 2" by (rule rint_nearest)
  then have "\<bar>round3 x - x\<bar> \<le> 1 / 2000"
    by (simp add: round3_def abs_if field_simps split: if_splits)
  then show ?thesis unfolding round3_def by blast
qed

lemma sort_values_order:
  "sorted_wrt (\<lambda>(la, lo, v) (la', lo', v'). la' < la \<or> (la' = la \<and> lo \<le> lo')) (sort_values df)"
proof -
  have "sorted (map (\<lambda>(la, lo, v). (- la, lo)) (sort_values df))"
    unfolding sort_values_def by (rule sorted_sort_key)
  then have "sorted_wrt (\<lambda>r s. (\<lambda>(la, lo, v). (- la, lo)) r \<le> (\<lambda>(la, lo, v). (- la, lo)) s)
               (sort_values df)"
    by (simp add: sorted_map)
  then show ?thesis
    by (rule sorted_wrt_mono_rel [rotated]) (auto simp: less_eq_prod_def)
qed

lemma mset_sort_values: "mset (sort_values df) = mset df"
  by (simp add: sort_values_def)

lemma grid_df_two_pass:
  "grid_df gp (map f gp) = map (\<lambda>(la, lo). (round3 la, round3 lo, f (la, lo))) gp"
  by (induction gp) (auto simp: grid_df_def)

lemma process_variable_success:
  assumes "process_variable l ds fn la0 la1 var lons = Inr (a, lo0, lo1)"
  shows "\<exists>sub df. subset_rows ds var la0 la1 (fst lons) (snd lons) = Inr sub
           \<and> rewrap_lon (dropna sub) (fst lons) (snd lons) = (df, lo0, lo1)
           \<and> \<not> collinear_points (df_points df)
           \<and> a = \<lparr>art_name = out_name fn var,
                   content = sort_values
                     (map (\<lambda>(la, lo). (round3 la, round3 lo, two_pass_value l df (la, lo)))
                          (grid_points la0 la1 lo0 lo1))\<rparr>"
proof (cases "subset_rows ds var la0 la1 (fst lons) (snd lons)")
  case (Inl e)
  with assms show ?thesis by (simp add: process_variable_no_subset)
next
  case (Inr sub)
  obtain df lo0' lo1' where r: "rewrap_lon (dropna sub) (fst lons) (snd lons) = (df, lo0', lo1')"
    by (cases "rewrap_lon (dropna sub) (fst lons) (snd lons)") auto
  from assms process_variable_eq [OF Inr r, of l fn]
  have "df \<noteq> []" "\<not> collinear_points (df_points df)" "lo0' = lo0" "lo1' = lo1"
    "a = \<lparr>art_name = out_name fn var,
          content = sort_values (grid_df (grid_points la0 la1 lo0 lo1)
                      (map (two_pass_value l df) (grid_points la0 la1 lo0 lo1)))\<rparr>"
    by (auto split: if_splits)
  with Inr r show ?thesis by (simp add: grid_df_two_pass)
qed

text \<open>
  Claim C6. In every table a unit produces, the rows are ordered with latitude
  non-increasing and, within equal latitude, longitude non-decreasing; the coordinate
  pairs of the rows are the lattice points with both coordinates rounded, one row per
  lattice point; and rounding yields a multiple of 0.001 at most 0.0005 away from the
  coordinate.
\<close>

theorem result_table_rounded_and_sorted:
  assumes "process_variable l ds fn la0 la1 var lons = Inr (a, lo0, lo1)"
  shows "sorted_wrt (\<lambda>(la, lo, v) (la', lo', v'). la' < la \<or> (la' = la \<and> lo \<le> lo')) (content a)
    \<and> mset (map (\<lambda>(la, lo, v). (la, lo)) (content a))
        = mset (map (\<lambda>(la, lo). (round3 la, round3 lo)) (grid_points la0 la1 lo0 lo1))
    \<and> length (content a) = length (grid_points la0 la1 lo0 lo1)
    \<and> (\<forall>x. \<exists>k::int. round3 x = of_int k / 1000 \<and> \<bar>round3 x - x\<bar> \<le> 1 / 2000)"
proof -
  from process_variable_success [OF assms] obtain df where
    a: "content a = sort_values
          (map (\<lambda>(la, lo). (round3 la, round3 lo, two_pass_value l df (la, lo)))
               (grid_points la0 la1 lo0 lo1))"
    by auto
  let ?rows = "map (\<lambda>(la, lo). (round3 la, round3 lo, two_pass_value l df (la, lo)))
                   (grid_points la0 la1 lo0 lo1)"
  have 1: "sorted_wrt (\<lambda>(la, lo, v) (la', lo', v'). la' < la \<or> (la' = la \<and> lo \<le> lo')) (content a)"
    unfolding a by (rule sort_values_order)
  have "mset (map (\<lambda>(la, lo, v). (la, lo)) (content a)) = mset (map (\<lambda>(la, lo, v). (la, lo)) ?rows)"
    unfolding a by (simp only: mset_map mset_sort_values)
  also have "map (\<lambda>(la, lo, v). (la, lo)) ?rows
      = map (\<lambda>(la, lo). (round3 la, round3 lo)) (grid_points la0 la1 lo0 lo1)"
    by (simp add: case_prod_beta)
  finally have 2: "mset (map (\<lambda>(la, lo, v). (la, lo)) (content a))
        = mset (map (\<lambda>(la, lo). (round3 la, round3 lo)) (grid_points la0 la1 lo0 lo1))" .
  have "size (mset (content a)) = size (mset ?rows)"
    unfolding a by (simp only: mset_sort_values)
  then have 3: "length (content a) = length (grid_points la0 la1 lo0 lo1)" by simp
  from 1 2 3 round3_three_decimals show ?thesis by blast
qed

text \<open>
  Claim C10. In every table a unit produces, the rows are, up to order, one row per
  lattice point holding the rounded coordinates of that point and the value of the two
  interpolation passes at the point itself, not at its rounded coordinates; the value
  is stored as the passes return it.
\<close>

theorem values_at_unrounded_lattice_points:
  assumes "process_variable l ds fn la0 la1 var lons = Inr (a, lo0, lo1)"
  shows "\<exists>sub df. subset_rows ds var la0 la1 (fst lons) (snd lons) = Inr sub
           \<and> rewrap_lon (dropna sub) (fst lons) (snd lons) = (df, lo0, lo1)
           \<and> interpolate l df (grid_points la0 la1 lo0 lo1)
               = Inr (map (two_pass_value l df) (grid_points la0 la1 lo0 lo1))
           \<and> mset (content a)
               = mset (map (\<lambda>(la, lo). (round3 la, round3 lo, two_pass_value l df (la, lo)))
                           (grid_points la0 la1 lo0 lo1))"
proof -
  from process_variable_success [OF assms] obtain sub df where
    s: "subset_rows ds var la0 la1 (fst lons) (snd lons) = Inr sub"
    and r: "rewrap_lon (dropna sub) (fst lons) (snd lons) = (df, lo0, lo1)"
    and nc: "\<not> collinear_points (df_points df)"
    and a: "content a = sort_values
          (map (\<lambda>(la, lo). (round3 la, round3 lo, two_pass_value l df (la, lo)))
               (grid_points la0 la1 lo0 lo1))"
    by auto
  from nc have ne: "df \<noteq> []" by (auto simp: collinear_points_def df_points_def)
  have i: "interpolate l df (grid_points la0 la1 lo0 lo1)
               = Inr (map (two_pass_value l df) (grid_points la0 la1 lo0 lo1))"
    using nc ne by (simp add: interpolate_two_pass)
  have m: "mset (content a)
               = mset (map (\<lambda>(la, lo). (round3 la, round3 lo, two_pass_value l df (la, lo)))
                           (grid_points la0 la1 lo0 lo1))"
    unfolding a by (rule mset_sort_values)
  from s r i m show ?thesis by blast
qed

theorem result_table_rounded_and_sorted_witness:
  "process_variable engines two_by_three ''day1.nc'' 0 0.125 ''sst'' (0, 0.25)
     = Inr (\<lparr>art_name = ''day1_sst_qgis.xlsx'',
             content = [(0.125, 0, Some 4), (0.125, 0.125, Some 5), (0.125, 0.25, Some 6),
                        (0, 0, Some 1), (0, 0.125, Some 2), (0, 0.25, Some 3)]\<rparr>, 0, 0.25)
   \<and> sorted_wrt (\<lambda>(la, lo, v) (la', lo', v'). la' < la \<or> (la' = la \<and> lo \<le> lo'))
        ([(0.125, 0, Some 4), (0.125, 0.125, Some 5), (0.125, 0.25, Some 6),
          (0, 0, Some 1), (0, 0.125, Some 2), (0, 0.25, Some 3)] :: row list)
   \<and> length (grid_points 0 0.125 0 0.25) = 6"
proof -
  have h: "process_variable engines two_by_three ''day1.nc'' 0 0.125 ''sst'' (0, 0.25)
     = Inr (\<lparr>art_name = ''day1_sst_qgis.xlsx'',
             content = [(0.125, 0, Some 4), (0.125, 0.125, Some 5), (0.125, 0.25, Some 6),
                        (0, 0, Some 1), (0, 0.125, Some 2), (0, 0.25, Some 3)]\<rparr>, 0, 0.25)"
    by code_simp
  from result_table_rounded_and_sorted [OF h] h show ?thesis by simp
qed

theorem values_at_unrounded_lattice_points_witness:
  "process_variable engines two_by_three ''day1.nc'' 0 0.125 ''chl'' (0, 0.25)
     = Inr (\<lparr>art_name = ''day1_chl_qgis.xlsx'',
             content = [(0.125, 0, Some 3), (0.125, 0.125, Some 4), (0.125, 0.25, Some 4),
                        (0, 0, Some 1), (0, 0.125, Some 2), (0, 0.25, Some 2)]\<rparr>, 0, 0.25)
   \<and> (\<exists>df. interpolate engines df (grid_points 0 0.125 0 0.25)
               = Inr (map (two_pass_value engines df) (grid_points 0 0.125 0 0.25))
        \<and> mset [(0.125, 0, Some 3), (0.125, 0.125, Some 4), (0.125, 0.25, Some 4),
                 (0, 0, Some 1), (0, 0.125, Some 2), (0, 0.25, Some 2)]
            = mset (map (\<lambda>(la, lo). (round3 la, round3 lo, two_pass_value engines df (la, lo)))
                        (grid_points 0 0.125 0 0.25)))"
proof -
  have h: "process_variable engines two_by_three ''day1.nc'' 0 0.125 ''chl'' (0, 0.25)
     = Inr (\<lparr>art_name = ''day1_chl_qgis.xlsx'',
             content = [(0.125, 0, Some 3), (0.125, 0.125, Some 4), (0.125, 0.25, Some 4),
                        (0, 0, Some 1), (0, 0.125, Some 2), (0, 0.25, Some 2)]\<rparr>, 0, 0.25)"
    by code_simp
  from values_at_unrounded_lattice_points [OF h] h show ?thesis by auto
qed

section \<open>The reader, the handler and the batch\<close>

lemma open_dataset_primary:
  "NETCDF4_AVAILABLE l \<Longrightarrow> open_netcdf4 l (getvalue file) = Inr ds \<Longrightarrow> open_dataset l file = Inr ds"
  by (simp add: open_dataset_def)

lemma open_dataset_secondary:
  "\<not> NETCDF4_AVAILABLE l \<or> (\<exists>e. open_netcdf4 l (getvalue file) = Inl e)
     \<Longrightarrow> open_dataset l file = open_h5netcdf l (getvalue file)"
  by (auto simp: open_dataset_def)

lemma open_dataset_fails_iff:
  "(\<exists>e. open_dataset l file = Inl e) \<longleftrightarrow>
     (\<not> NETCDF4_AVAILABLE l \<or> (\<exists>e. open_netcdf4 l (getvalue file) = Inl e))
     \<and> (\<exists>e. open_h5netcdf l (getvalue file) = Inl e)"
  by (auto simp: open_dataset_def split: sum.splits)

lemma handle_decode_failure:
  "open_dataset l file = Inl e \<Longrightarrow>
     handle_copernicus_file l file sel st = (None, emit (Failed_to_process (name file) e) st)"
  by (simp add: handle_copernicus_file_def)

lemma emit_fields [simp]:
  "final_excels (emit r st) = final_excels st"
  "messages (emit r st) = messages st @ [r]"
  "open_handles (emit r st) = open_handles st"
  by (simp_all add: emit_def)

lemma handle_result_state_free:
  "fst (handle_copernicus_file l file sel st) = fst (handle_copernicus_file l file sel st')"
  by (simp add: handle_copernicus_file_def Let_def split: sum.splits prod.splits)

lemma handle_keeps_final_excels:
  "final_excels (snd (handle_copernicus_file l file sel st)) = final_excels st"
  by (simp add: handle_copernicus_file_def Let_def split: sum.splits prod.splits)

lemma process_file_final_excels:
  "final_excels (process_file l sels file st)
     = final_excels st @
         (case sels (name file) of
            None \<Rightarrow> []
          | Some sel \<Rightarrow>
              (case fst (handle_copernicus_file l file sel st) of None \<Rightarrow> [] | Some rs \<Rightarrow> rs))"
proof (cases "sels (name file)")
  case None
  then show ?thesis by (simp add: process_file_def Let_def)
next
  case (Some sel)
  let ?st1 = "emit (Processing (name file)) st"
  obtain r st2 where h: "handle_copernicus_file l file sel ?st1 = (r, st2)"
    by (cases "handle_copernicus_file l file sel ?st1") auto
  have f: "final_excels st2 = final_excels st"
    using handle_keeps_final_excels [of l "file" sel ?st1] h by simp
  have r: "fst (handle_copernicus_file l file sel st) = r"
    using handle_result_state_free [of l "file" sel st ?st1] h by simp
  show ?thesis
    by (cases r) (simp_all add: process_file_def Let_def Some h f r)
qed

lemma processing_loop_final_excels:
  "final_excels (processing_loop l sels files st)
     = final_excels st @
         concat (map (\<lambda>file. final_excels (process_file l sels file (st0\<lparr>final_excels := []\<rparr>)))
                     files)"
proof (induction files arbitrary: st)
  case Nil
  show ?case by simp
next
  case (Cons f files)
  have "final_excels (process_file l sels f st)
      = final_excels st @ final_excels (process_file l sels f (st0\<lparr>final_excels := []\<rparr>))"
    using handle_result_state_free [of l f _ st "st0\<lparr>final_excels := []\<rparr>"]
    by (simp add: process_file_final_excels split: option.splits)
  then show ?case by (simp add: Cons.IH)
qed

lemma process_all_final_excels:
  "final_excels (process_all l sels files st)
     = concat (map (\<lambda>file. final_excels (process_all l sels [file] st)) files)"
proof -
  have one: "final_excels (process_all l sels [f] st)
      = final_excels (process_file l sels f (st\<lparr>final_excels := []\<rparr>))" for f
    by (simp add: process_all_def Let_def)
  show ?thesis
    unfolding one
    by (simp add: process_all_def Let_def processing_loop_final_excels [where ?st0.0 = st])
qed

lemma variables_loop_first_failure:
  "variables_loop l ds fn la0 la1 vars lons res = Inl e
     \<Longrightarrow> \<exists>before var after lons'.
           vars = before @ var # after
           \<and> (\<exists>res'. variables_loop l ds fn la0 la1 before lons res = Inr res')
           \<and> variables_loop l ds fn la0 la1 (before @ [var]) lons res = Inl e
           \<and> process_variable l ds fn la0 la1 var lons' = Inl e"
proof (induction vars arbitrary: lons res)
  case Nil
  then show ?case by simp
next
  case (Cons v vs)
  show ?case
  proof (cases "process_variable l ds fn la0 la1 v lons")
    case (Inl e')
    with Cons.prems have p: "process_variable l ds fn la0 la1 v lons = Inl e" by simp
    show ?thesis
      by (intro exI [of _ "[]"] exI [of _ v] exI [of _ vs] exI [of _ lons]) (simp add: p)
  next
    case (Inr r)
    obtain a lons1 where r: "r = (a, lons1)" by (cases r)
    from Cons.prems Inr r have "variables_loop l ds fn la0 la1 vs lons1 (res @ [a]) = Inl e"
      by simp
    from Cons.IH [OF this] obtain before var after lons' where
      vs: "vs = before @ var # after"
      and ok: "\<exists>res'. variables_loop l ds fn la0 la1 before lons1 (res @ [a]) = Inr res'"
      and bad: "variables_loop l ds fn la0 la1 (before @ [var]) lons1 (res @ [a]) = Inl e"
      and unit: "process_variable l ds fn la0 la1 var lons' = Inl e"
      by blast
    show ?thesis
      using vs ok bad unit Inr r
      by (intro exI [of _ "v # before"] exI [of _ var] exI [of _ after] exI [of _ lons']) simp
  qed
qed

lemma handle_failure_reported:
  assumes "fst (handle_copernicus_file l f sel st) = None"
  shows "\<exists>e. messages (snd (handle_copernicus_file l f sel st))
                = messages st @ [Failed_to_process (name f) e]
           \<and> (open_dataset l f = Inl e
               \<or> (\<exists>ds. open_dataset l f = Inr ds
                     \<and> (lat_bounds (ds_lat ds) (lat_min sel) (lat_max sel) = Inl e
                         \<or> (\<exists>la0 la1.
                               lat_bounds (ds_lat ds) (lat_min sel) (lat_max sel) = Inr (la0, la1)
                               \<and> variables_loop l ds (name f) la0 la1 (variables sel)
                                    (lon_min sel, lon_max sel) [] = Inl e
                               \<and> (\<exists>before var after.
                                     variables sel = before @ var # after
                                     \<and> (\<exists>res. variables_loop l ds (name f) la0 la1 before
                                                 (lon_min sel, lon_max sel) [] = Inr res)
                                     \<and> variables_loop l ds (name f) la0 la1 (before @ [var])
                                          (lon_min sel, lon_max sel) [] = Inl e)))))"
proof (cases "open_dataset l f")
  case (Inl e)
  then show ?thesis by (simp add: handle_copernicus_file_def)
next
  case (Inr ds)
  note ds = this
  show ?thesis
  proof (cases "lat_bounds (ds_lat ds) (lat_min sel) (lat_max sel)")
    case (Inl e)
    with ds show ?thesis by (simp add: handle_copernicus_file_def Let_def)
  next
    case (Inr b)
    obtain la0 la1 where b: "b = (la0, la1)" by (cases b)
    show ?thesis
    proof (cases "variables_loop l ds (name f) la0 la1 (variables sel) (lon_min sel, lon_max sel) []")
      case (Inl e)
      from variables_loop_first_failure [OF Inl] obtain before var after where
        "variables sel = before @ var # after"
        "\<exists>res. variables_loop l ds (name f) la0 la1 before (lon_min sel, lon_max sel) [] = Inr res"
        "variables_loop l ds (name f) la0 la1 (before @ [var]) (lon_min sel, lon_max sel) [] = Inl e"
        by blast
      with Inl have run: "\<exists>la0' la1'.
           lat_bounds (ds_lat ds) (lat_min sel) (lat_max sel) = Inr (la0', la1')
           \<and> variables_loop l ds (name f) la0' la1' (variables sel)
                (lon_min sel, lon_max sel) [] = Inl e
           \<and> (\<exists>before var after.
                 variables sel = before @ var # after
                 \<and> (\<exists>res. variables_loop l ds (name f) la0' la1' before
                             (lon_min sel, lon_max sel) [] = Inr res)
                 \<and> variables_loop l ds (name f) la0' la1' (before @ [var])
                      (lon_min sel, lon_max sel) [] = Inl e)"
        using Inr b by blast
      have msg: "messages (snd (handle_copernicus_file l f sel st))
                = messages st @ [Failed_to_process (name f) e]"
        using ds Inr b Inl by (simp add: handle_copernicus_file_def Let_def)
      from msg ds run show ?thesis by blast
    next
      case r: (Inr results)
      with ds Inr b assms show ?thesis by (simp add: handle_copernicus_file_def Let_def)
    qed
  qed
qed

text \<open>
  Claim C9. The reader attempts the netCDF4 engine first and returns its dataset when
  the attempt succeeds. When that engine is unavailable or its attempt fails, the result
  is that of the h5netcdf engine. The reader fails exactly when both attempts fail; the
  handler then reports the file by name with the error of the second engine, yields no
  artifacts for it, and the processing loop goes on with the remaining files.
\<close>

theorem reader_tries_both_engines:
  "(NETCDF4_AVAILABLE l \<and> open_netcdf4 l (getvalue f) = Inr ds \<longrightarrow> open_dataset l f = Inr ds)
   \<and> (\<not> NETCDF4_AVAILABLE l \<or> (\<exists>e. open_netcdf4 l (getvalue f) = Inl e)
        \<longrightarrow> open_dataset l f = open_h5netcdf l (getvalue f))
   \<and> ((\<exists>e. open_dataset l f = Inl e) \<longleftrightarrow>
         (\<not> NETCDF4_AVAILABLE l \<or> (\<exists>e. open_netcdf4 l (getvalue f) = Inl e))
         \<and> (\<exists>e. open_h5netcdf l (getvalue f) = Inl e))
   \<and> (open_dataset l f = Inl e \<and> sels (name f) = Some sel \<longrightarrow>
         handle_copernicus_file l f sel st = (None, emit (Failed_to_process (name f) e) st)
         \<and> process_file l sels f st
             = emit (Failed_to_process (name f) e) (emit (Processing (name f)) st)
         \<and> processing_loop l sels (f # files) st
             = processing_loop l sels files
                 (emit (Failed_to_process (name f) e) (emit (Processing (name f)) st)))"
proof -
  have 1: "NETCDF4_AVAILABLE l \<and> open_netcdf4 l (getvalue f) = Inr ds \<longrightarrow> open_dataset l f = Inr ds"
    by (simp add: open_dataset_primary)
  have 2: "\<not> NETCDF4_AVAILABLE l \<or> (\<exists>e. open_netcdf4 l (getvalue f) = Inl e)
        \<longrightarrow> open_dataset l f = open_h5netcdf l (getvalue f)"
    using open_dataset_secondary [of l f] by blast
  note 3 = open_dataset_fails_iff [of l f]
  have 4: "open_dataset l f = Inl e \<and> sels (name f) = Some sel \<longrightarrow>
         handle_copernicus_file l f sel st = (None, emit (Failed_to_process (name f) e) st)
         \<and> process_file l sels f st
             = emit (Failed_to_process (name f) e) (emit (Processing (name f)) st)
         \<and> processing_loop l sels (f # files) st
             = processing_loop l sels files
                 (emit (Failed_to_process (name f) e) (emit (Processing (name f)) st))"
    by (simp add: handle_decode_failure process_file_def Let_def)
  from 1 2 3 4 show ?thesis by blast
qed

theorem reader_tries_both_engines_witness:
  "open_dataset engines day1 = Inr two_by_three
   \<and> open_dataset engines day2 = Inr two_by_three
   \<and> open_dataset engines broken = Inl (BackendError ''not a valid HDF5 file'')
   \<and> process_file engines picks broken idle
       = \<lparr>final_excels = [],
          messages = [Processing ''broken.nc'',
                      Failed_to_process ''broken.nc'' (BackendError ''not a valid HDF5 file'')],
          open_handles = []\<rparr>"
proof -
  have a: "NETCDF4_AVAILABLE engines \<and> open_netcdf4 engines (getvalue day1) = Inr two_by_three"
    by (simp add: engines_def day1_def)
  have b: "\<exists>e. open_netcdf4 engines (getvalue day2) = Inl e"
    by (simp add: engines_def day2_def)
  have b': "open_h5netcdf engines (getvalue day2) = Inr two_by_three"
    by (simp add: engines_def day2_def)
  have c: "\<exists>e. open_netcdf4 engines (getvalue broken) = Inl e"
    by (simp add: engines_def broken_def)
  have c': "open_h5netcdf engines (getvalue broken) = Inl (BackendError ''not a valid HDF5 file'')"
    by (simp add: engines_def broken_def)
  have s: "picks (name broken) = Some (whole_box [''sst''])"
    by (simp add: picks_def broken_def)
  from reader_tries_both_engines [of engines day1 two_by_three] a
  have 1: "open_dataset engines day1 = Inr two_by_three" by blast
  from reader_tries_both_engines [of engines day2] b b'
  have 2: "open_dataset engines day2 = Inr two_by_three" by simp
  from reader_tries_both_engines [of engines broken] c c'
  have 3: "open_dataset engines broken = Inl (BackendError ''not a valid HDF5 file'')" by simp
  from reader_tries_both_engines [of engines broken _ "BackendError ''not a valid HDF5 file''"
      picks "whole_box [''sst'']" idle] 3 s
  have 4: "process_file engines picks broken idle
      = emit (Failed_to_process (name broken) (BackendError ''not a valid HDF5 file''))
          (emit (Processing (name broken)) idle)"
    by blast
  from 1 2 3 4 show ?thesis by (simp add: emit_def idle_def broken_def)
qed

text \<open>
  Claim C1, as the code has it. The artifacts of a batch are the artifacts each file
  yields when it is processed alone, in upload order, so no file's failure changes
  what another file yields. When the handler fails for a file, that file yields no
  artifact, and the handler reports the file by name together with the error this run
  raised: the reader's error, or the error of the latitude test, or the error with which
  the variable loop of this run stopped, which is the error of the first selected
  variable whose unit fails after the units before it succeeded.
\<close>

theorem failure_isolated_per_file:
  "final_excels (process_all l sels files st)
     = concat (map (\<lambda>f. final_excels (process_all l sels [f] st)) files)
   \<and> (sels (name f) = Some sel \<and> fst (handle_copernicus_file l f sel st) = None \<longrightarrow>
        final_excels (process_all l sels [f] st) = []
        \<and> (\<exists>e. messages (snd (handle_copernicus_file l f sel st))
                   = messages st @ [Failed_to_process (name f) e]
              \<and> (open_dataset l f = Inl e
                  \<or> (\<exists>ds. open_dataset l f = Inr ds
                        \<and> (lat_bounds (ds_lat ds) (lat_min sel) (lat_max sel) = Inl e
                            \<or> (\<exists>la0 la1.
                                  lat_bounds (ds_lat ds) (lat_min sel) (lat_max sel) = Inr (la0, la1)
                                  \<and> variables_loop l ds (name f) la0 la1 (variables sel)
                                       (lon_min sel, lon_max sel) [] = Inl e
                                  \<and> (\<exists>before var after.
                                        variables sel = before @ var # after
                                        \<and> (\<exists>res. variables_loop l ds (name f) la0 la1 before
                                                    (lon_min sel, lon_max sel) [] = Inr res)
                                        \<and> variables_loop l ds (name f) la0 la1 (before @ [var])
                                             (lon_min sel, lon_max sel) [] = Inl e)))))))"
proof (intro conjI impI)
  show "final_excels (process_all l sels files st)
     = concat (map (\<lambda>f. final_excels (process_all l sels [f] st)) files)"
    by (rule process_all_final_excels)
next
  assume a: "sels (name f) = Some sel \<and> fst (handle_copernicus_file l f sel st) = None"
  then have "fst (handle_copernicus_file l f sel (st\<lparr>final_excels := []\<rparr>)) = None"
    using handle_result_state_free [of l f sel st "st\<lparr>final_excels := []\<rparr>"] by simp
  then show "final_excels (process_all l sels [f] st) = []"
    using a by (simp add: process_all_def Let_def process_file_final_excels)
next
  assume a: "sels (name f) = Some sel \<and> fst (handle_copernicus_file l f sel st) = None"
  then have "fst (handle_copernicus_file l f sel st) = None" by simp
  then show "\<exists>e. messages (snd (handle_copernicus_file l f sel st))
                   = messages st @ [Failed_to_process (name f) e]
              \<and> (open_dataset l f = Inl e
                  \<or> (\<exists>ds. open_dataset l f = Inr ds
                        \<and> (lat_bounds (ds_lat ds) (lat_min sel) (lat_max sel) = Inl e
                            \<or> (\<exists>la0 la1.
                                  lat_bounds (ds_lat ds) (lat_min sel) (lat_max sel) = Inr (la0, la1)
                                  \<and> variables_loop l ds (name f) la0 la1 (variables sel)
                                       (lon_min sel, lon_max sel) [] = Inl e
                                  \<and> (\<exists>before var after.
                                        variables sel = before @ var # after
                                        \<and> (\<exists>res. variables_loop l ds (name f) la0 la1 before
                                                    (lon_min sel, lon_max sel) [] = Inr res)
                                        \<and> variables_loop l ds (name f) la0 la1 (before @ [var])
                                             (lon_min sel, lon_max sel) [] = Inl e)))))"
    by (rule handle_failure_reported)
qed

text \<open>
  One file with two selected variables: \<open>sst\<close> alone yields its table, \<open>ice\<close> has no
  defined sample in the box. With both selected, in either order, the handler returns
  nothing and the batch holds no artifact for \<open>sst\<close>.
\<close>

theorem unit_failure_discards_sibling_units:
  "fst (handle_copernicus_file engines day1 (whole_box [''sst'']) idle)
     = Some [\<lparr>art_name = ''day1_sst_qgis.xlsx'',
               content = [(0.125, 0, Some 4), (0.125, 0.125, Some 5), (0.125, 0.25, Some 6),
                          (0, 0, Some 1), (0, 0.125, Some 2), (0, 0.25, Some 3)]\<rparr>]
   \<and> handle_copernicus_file engines day1 (whole_box [''sst'', ''ice'']) idle
     = (None, \<lparr>final_excels = [], messages = [Failed_to_process ''day1.nc'' ValueError],
               open_handles = [''day1.nc'']\<rparr>)
   \<and> fst (handle_copernicus_file engines day1 (whole_box [''ice'', ''sst'']) idle) = None
   \<and> final_excels (process_all engines [''day1.nc'' \<mapsto> whole_box [''sst'', ''ice''] ] [day1] idle)
     = []"
  by code_simp

theorem failure_isolated_per_file_witness:
  "picks (name day1) = Some (whole_box [''sst'', ''ice''])
   \<and> fst (handle_copernicus_file engines day1 (whole_box [''sst'', ''ice'']) idle) = None
   \<and> final_excels (process_all engines picks [day1] idle) = []
   \<and> final_excels (process_all engines picks [day1, day2, broken] idle)
       = [\<lparr>art_name = ''day2_chl_qgis.xlsx'',
           content = [(0.125, 0, Some 3), (0.125, 0.125, Some 4), (0.125, 0.25, Some 4),
                      (0, 0, Some 1), (0, 0.125, Some 2), (0, 0.25, Some 2)]\<rparr>]"
proof -
  have s: "picks (name day1) = Some (whole_box [''sst'', ''ice''])"
    by (simp add: picks_def day1_def)
  have n: "fst (handle_copernicus_file engines day1 (whole_box [''sst'', ''ice'']) idle) = None"
    by code_simp
  have d2: "final_excels (process_all engines picks [day2] idle)
       = [\<lparr>art_name = ''day2_chl_qgis.xlsx'',
           content = [(0.125, 0, Some 3), (0.125, 0.125, Some 4), (0.125, 0.25, Some 4),
                      (0, 0, Some 1), (0, 0.125, Some 2), (0, 0.25, Some 2)]\<rparr>]"
    by code_simp
  have d3: "final_excels (process_all engines picks [broken] idle) = []"
    by code_simp
  note t = failure_isolated_per_file [of engines picks "[day1, day2, broken]" idle day1
      "whole_box [''sst'', ''ice'']"]
  from t s n have d1: "final_excels (process_all engines picks [day1] idle) = []" by blast
  from t have "final_excels (process_all engines picks [day1, day2, broken] idle)
      = concat (map (\<lambda>f. final_excels (process_all engines picks [f] idle)) [day1, day2, broken])"
    by (rule conjunct1)
  with d1 d2 d3 have "final_excels (process_all engines picks [day1, day2, broken] idle)
       = [\<lparr>art_name = ''day2_chl_qgis.xlsx'',
           content = [(0.125, 0, Some 3), (0.125, 0.125, Some 4), (0.125, 0.25, Some 4),
                      (0, 0, Some 1), (0, 0.125, Some 2), (0, 0.25, Some 2)]\<rparr>]"
    by simp
  with s n d1 show ?thesis by blast
qed

subsection \<open>The dataset handle\<close>

text \<open>
  The handler closes the dataset after the last variable. When it fails after the
  dataset was opened, the handle stays open.
\<close>

lemma handle_open_after_failure:
  assumes "open_dataset l f = Inr ds" and "fst (handle_copernicus_file l f sel st) = None"
  shows "open_handles (snd (handle_copernicus_file l f sel st)) = name f # open_handles st"
  using assms
  by (auto simp: handle_copernicus_file_def Let_def split: sum.splits prod.splits)

lemma handle_closed_after_success:
  assumes "fst (handle_copernicus_file l f sel st) = Some results"
  shows "open_handles (snd (handle_copernicus_file l f sel st)) = open_handles st"
  using assms
  by (auto simp: handle_copernicus_file_def Let_def split: sum.splits prod.splits)

text \<open>
  Claim C7 at a concrete input. The file decodes; the selected variable \<open>ice\<close> has no
  defined sample, so interpolation raises and the handler returns through its
  \<open>except\<close> branch: the dataset handle of the file is still open afterwards. On the
  successful run with \<open>sst\<close> no handle is left open.
\<close>

theorem handle_left_open_after_failure:
  "open_dataset engines day1 = Inr two_by_three
   \<and> handle_copernicus_file engines day1 (whole_box [''ice'']) idle
       = (None, \<lparr>final_excels = [], messages = [Failed_to_process ''day1.nc'' ValueError],
                 open_handles = [''day1.nc'']\<rparr>)
   \<and> open_handles (snd (handle_copernicus_file engines day1 (whole_box [''sst'']) idle)) = []"
proof -
  have 1: "open_dataset engines day1 = Inr two_by_three"
    by (simp add: open_dataset_def engines_def day1_def)
  have 2: "handle_copernicus_file engines day1 (whole_box [''ice'']) idle
       = (None, \<lparr>final_excels = [], messages = [Failed_to_process ''day1.nc'' ValueError],
                 open_handles = [''day1.nc'']\<rparr>)"
    by code_simp
  have 3: "open_handles (snd (handle_copernicus_file engines day1 (whole_box [''sst'']) idle)) = []"
    by code_simp
  from 1 2 3 show ?thesis by blast
qed

end
